theory Spec2Isabelle
  imports Main "HOL-Library.Word" "HOL-Library.Multiset"
begin

section \<open>The SQL persistence provider of \<open>persistence/sql_provider.go\<close>\<close>

text \<open>
  The provider stores, per actor, a log of events and one snapshot in two SQL tables, and
  reads them back through a protobuf codec. The Go code talks to three collaborators that
  are not part of it: the SQL engine behind \<open>database/sql\<close> and \<open>sqlx\<close>, the protobuf
  registry, and the operating system. Each is modelled as a value the functions receive:
  the database as the contents of its two tables together with the faults its driver will
  report, the codec as a record of its four operations, the system as a record of the
  library calls the constructor makes. A Go \<open>panic(err)\<close> and a returned \<open>error\<close> are both
  the left summand of a sum; which of the two it is, is said at each function.
\<close>

subsection \<open>Data\<close>

type_synonym bytes = "8 word list"

text \<open>
  The statements the provider executes. \<open>CreateEvents\<close> and \<open>CreateSnapshots\<close> are the two
  entries of the array \<open>tables\<close>:
  \<^verbatim>\<open>CREATE TABLE IF NOT EXISTS events (actor_name varchar(255) NOT NULL,
     event_type varchar(255) NOT NULL, event_index int NOT NULL, event BLOB NOT NULL);\<close>
  \<^verbatim>\<open>CREATE TABLE IF NOT EXISTS snapshots (actor_name varchar(255) NOT NULL PRIMARY KEY,
     snapshot_type varchar(255) NOT NULL, event_index int NOT NULL, snapshot BLOB NOT NULL);\<close>
  The other two are the \<open>INSERT OR REPLACE INTO ... VALUES (?,?,?,?)\<close> statements of
  \<open>PersistSnapshot\<close> and \<open>PersistEvent\<close>, with their four bound arguments.
\<close>

datatype stmt =
    CreateEvents
  | CreateSnapshots
  | InsertOrReplaceSnapshot string string int bytes
  | InsertOrReplaceEvent string string int bytes

datatype error =
    InvalidDbDriver string  \<comment> \<open>\<open>fmt.Errorf("Invalid db driver %s", driver)\<close>\<close>
  | CreateTableFailed stmt error  \<comment> \<open>\<open>fmt.Errorf("Failed to create database table %s: %v", v, err)\<close>\<close>
  | UnsupportedProtocolType  \<comment> \<open>\<open>fmt.Errorf("Unsupported protocol type %s", protoType)\<close>\<close>
  | InvalidDBURL string  \<comment> \<open>\<open>fmt.Errorf("Invalid DB URL in %s : %s", setup.EnvDBURL, dbUrlString)\<close>\<close>
  | ErrNoRows  \<comment> \<open>\<open>sql.ErrNoRows\<close>\<close>
  | NoSuchTable string  \<comment> \<open>the engine's answer to a statement on a table that does not exist\<close>
  | ErrSyntax  \<comment> \<open>\<open>strconv.ErrSyntax\<close>\<close>
  | ErrRange  \<comment> \<open>\<open>strconv.ErrRange\<close>\<close>
  | NilPointerDereference  \<comment> \<open>the runtime panic of a field read through a nil pointer\<close>
  | LibError string  \<comment> \<open>any other error a library call reports\<close>

record event_row =
  e_actor_name :: string
  event_type :: string
  e_event_index :: int
  event_blob :: bytes

record snapshot_row =
  s_actor_name :: string
  snapshot_type :: string
  s_event_index :: int
  snapshot_blob :: bytes

text \<open>
  What the driver will report on the calls made through one handle. \<open>next_fault = Some (n, e)\<close>:
  a cursor stops with error \<open>e\<close> once it has delivered \<open>n\<close> rows (\<open>rows.Next()\<close> returns
  false and \<open>rows.Err()\<close> is \<open>e\<close>). An entry \<open>(i, k, e)\<close> of \<open>scan_faults\<close>: \<open>Scan\<close> of the
  \<open>i\<close>-th row of a cursor fails with \<open>e\<close> at column \<open>k\<close>.
\<close>

record faults =
  ping_fault :: "error option"
  exec_fault :: "stmt \<Rightarrow> error option"
  query_fault :: "error option"
  next_fault :: "(nat \<times> error) option"
  scan_faults :: "(nat \<times> nat \<times> error) list"

definition no_faults :: faults where
  "no_faults = \<lparr>ping_fault = None, exec_fault = (\<lambda>_. None), query_fault = None,
     next_fault = None, scan_faults = []\<rparr>"

definition scan_fault :: "faults \<Rightarrow> nat \<Rightarrow> (nat \<times> error) option" where
  "scan_fault f i = map_of (scan_faults f) i"

text \<open>A database: each table is absent (\<open>None\<close>) or holds its rows in insertion order.\<close>

record database =
  events_tbl :: "event_row list option"
  snapshots_tbl :: "snapshot_row list option"
  driver_faults :: faults

text \<open>
  The handle \<open>*sqlx.DB\<close>: the database it is connected to and the two pool settings of
  \<open>database/sql\<close> (\<open>maxIdleCount\<close>: 0 is the default of 2, negative is none; \<open>maxOpen\<close>: 0 is
  unlimited).
\<close>

record sqlx_DB = database +
  maxIdleCount :: int
  maxOpen :: int

record SqlProvider =
  snapshotInterval :: int
  db :: sqlx_DB

text \<open>
  The protobuf library as the provider uses it: \<open>proto.MessageName\<close>, \<open>proto.Marshal\<close>,
  the registry \<open>proto.MessageType\<close> (\<open>None\<close> is the nil of an unregistered name), and
  \<open>proto.Unmarshal\<close> into a fresh instance of a registered type.
\<close>

record ('m, 't) codec =
  MessageName :: "'m \<Rightarrow> string"
  Marshal :: "'m \<Rightarrow> error + bytes"
  MessageType :: "string \<Rightarrow> 't option"
  Unmarshal :: "'t \<Rightarrow> bytes \<Rightarrow> error + 'm"

subsection \<open>The SQL engine\<close>

text \<open>
  The statements are written in the dialect of SQLite, and the engine is modelled as
  SQLite executes them; an engine that rejects a statement is a driver whose \<open>exec_fault\<close>
  answers it with an error. \<open>INSERT OR REPLACE\<close> deletes the rows that conflict with the new
  one on a uniqueness constraint of the table and then inserts it. Table \<open>events\<close>
  declares no \<open>PRIMARY KEY\<close> and no \<open>UNIQUE\<close> column, so no row ever conflicts; table
  \<open>snapshots\<close> declares \<open>actor_name\<close> as its primary key.
\<close>

definition insert_or_replace :: "('r \<Rightarrow> 'r \<Rightarrow> bool) \<Rightarrow> 'r \<Rightarrow> 'r list \<Rightarrow> 'r list" where
  "insert_or_replace conflict new tbl = filter (\<lambda>old. \<not> conflict old new) tbl @ [new]"

definition events_conflict :: "event_row \<Rightarrow> event_row \<Rightarrow> bool" where
  "events_conflict old new = False"

definition snapshots_conflict :: "snapshot_row \<Rightarrow> snapshot_row \<Rightarrow> bool" where
  "snapshots_conflict old new = (s_actor_name old = s_actor_name new)"

fun engine_exec :: "stmt \<Rightarrow> sqlx_DB \<Rightarrow> error + sqlx_DB" where
  "engine_exec CreateEvents d =
     Inr (d\<lparr>events_tbl := Some (case events_tbl d of None \<Rightarrow> [] | Some t \<Rightarrow> t)\<rparr>)"
| "engine_exec CreateSnapshots d =
     Inr (d\<lparr>snapshots_tbl := Some (case snapshots_tbl d of None \<Rightarrow> [] | Some t \<Rightarrow> t)\<rparr>)"
| "engine_exec (InsertOrReplaceSnapshot a ty i b) d =
     (case snapshots_tbl d of
        None \<Rightarrow> Inl (NoSuchTable ''snapshots'')
      | Some t \<Rightarrow> Inr (d\<lparr>snapshots_tbl := Some (insert_or_replace snapshots_conflict
          \<lparr>s_actor_name = a, snapshot_type = ty, s_event_index = i, snapshot_blob = b\<rparr> t)\<rparr>))"
| "engine_exec (InsertOrReplaceEvent a ty i b) d =
     (case events_tbl d of
        None \<Rightarrow> Inl (NoSuchTable ''events'')
      | Some t \<Rightarrow> Inr (d\<lparr>events_tbl := Some (insert_or_replace events_conflict
          \<lparr>e_actor_name = a, event_type = ty, e_event_index = i, event_blob = b\<rparr> t)\<rparr>))"

definition Exec :: "sqlx_DB \<Rightarrow> stmt \<Rightarrow> error + sqlx_DB" where
  "Exec d s = (case exec_fault (driver_faults d) s of Some err \<Rightarrow> Inl err | None \<Rightarrow> engine_exec s d)"

definition Ping :: "sqlx_DB \<Rightarrow> error option" where
  "Ping d = ping_fault (driver_faults d)"

text \<open>
  \<^verbatim>\<open>SELECT snapshot_type,event_index,snapshot FROM snapshots WHERE actor_name = ?\<close> and
  \<^verbatim>\<open>SELECT event_type,event_index,event FROM events where actor_name = ? AND event_index >= ?
  ORDER BY event_index ASC\<close>. SQL leaves the order of rows with equal \<open>event_index\<close> open;
  the model keeps them in insertion order.
\<close>

definition select_snapshots :: "snapshot_row list \<Rightarrow> string \<Rightarrow> snapshot_row list" where
  "select_snapshots t a = filter (\<lambda>r. s_actor_name r = a) t"

definition select_events :: "event_row list \<Rightarrow> string \<Rightarrow> int \<Rightarrow> event_row list" where
  "select_events t a start =
     sort_key e_event_index (filter (\<lambda>r. e_actor_name r = a \<and> start \<le> e_event_index r) t)"

text \<open>
  A cursor \<open>*sql.Rows\<close>: the rows \<open>Next()\<close> will deliver, each with the fault its \<open>Scan\<close> will
  meet, and the error \<open>Err()\<close> reports once \<open>Next()\<close> has returned false.
\<close>

record 'r Rows =
  fetched :: "('r \<times> (nat \<times> error) option) list"
  lasterr :: "error option"

definition open_cursor :: "faults \<Rightarrow> 'r list \<Rightarrow> 'r Rows" where
  "open_cursor f rs =
     (let (rs', err) = (case next_fault f of
                          None \<Rightarrow> (rs, None)
                        | Some (n, e) \<Rightarrow> if n \<le> length rs then (take n rs, Some e) else (rs, None))
      in \<lparr>fetched = map (\<lambda>(i, r). (r, scan_fault f i)) (enumerate 0 rs'), lasterr = err\<rparr>)"

definition Queryx_events :: "sqlx_DB \<Rightarrow> string \<Rightarrow> int \<Rightarrow> error + event_row Rows" where
  "Queryx_events d a start =
     (case query_fault (driver_faults d) of
        Some err \<Rightarrow> Inl err
      | None \<Rightarrow> (case events_tbl d of
                  None \<Rightarrow> Inl (NoSuchTable ''events'')
                | Some t \<Rightarrow> Inr (open_cursor (driver_faults d) (select_events t a start))))"

text \<open>\<open>sqlx\<close>'s \<open>QueryRowx\<close> keeps the error of the query in the row it returns.\<close>

type_synonym 'r Row = "error + 'r Rows"

definition QueryRowx_snapshots :: "sqlx_DB \<Rightarrow> string \<Rightarrow> snapshot_row Row" where
  "QueryRowx_snapshots d a =
     (case query_fault (driver_faults d) of
        Some err \<Rightarrow> Inl err
      | None \<Rightarrow> (case snapshots_tbl d of
                  None \<Rightarrow> Inl (NoSuchTable ''snapshots'')
                | Some t \<Rightarrow> Inr (open_cursor (driver_faults d) (select_snapshots t a))))"

definition Row_Err :: "'r Row \<Rightarrow> error option" where
  "Row_Err row = (case row of Inl err \<Rightarrow> Some err | Inr _ \<Rightarrow> None)"

text \<open>
  \<open>Scan\<close> into destinations of type \<open>*string\<close>, \<open>*int\<close>, \<open>*[]byte\<close> that hold their zero
  values: \<open>database/sql\<close> converts the columns from left to right and returns at the first
  one that fails, so the destinations before column \<open>k\<close> are assigned and the others keep
  what they held. The result is the returned error and the three destinations.
\<close>

fun scan3 :: "string \<times> int \<times> bytes \<Rightarrow> (nat \<times> error) option \<Rightarrow> error option \<times> string \<times> int \<times> bytes" where
  "scan3 (ty, i, b) None = (None, ty, i, b)"
| "scan3 (ty, i, b) (Some (k, err)) = (Some err, (if 0 < k then ty else []), (if 1 < k then i else 0), [])"

definition Rows_Scan :: "event_row \<times> (nat \<times> error) option \<Rightarrow> error option \<times> string \<times> int \<times> bytes" where
  "Rows_Scan f = scan3 (event_type (fst f), e_event_index (fst f), event_blob (fst f)) (snd f)"

text \<open>
  \<open>sqlx\<close>'s \<open>Row.Scan\<close>: the error of the query if there is one; without a first row the
  cursor's error, or \<open>sql.ErrNoRows\<close>; else the scan of the first row.
\<close>

definition Row_Scan :: "snapshot_row Row \<Rightarrow> error + string \<times> int \<times> bytes" where
  "Row_Scan row =
     (case row of
        Inl err \<Rightarrow> Inl err
      | Inr rows \<Rightarrow>
          (case fetched rows of
             [] \<Rightarrow> (case lasterr rows of Some err \<Rightarrow> Inl err | None \<Rightarrow> Inl ErrNoRows)
           | (r, f) # _ \<Rightarrow>
               (case scan3 (snapshot_type r, s_event_index r, snapshot_blob r) f of
                  (Some err, _) \<Rightarrow> Inl err
                | (None, v) \<Rightarrow> Inr v)))"

text \<open>The pool settings, as \<open>database/sql\<close> keeps them consistent.\<close>

definition maxIdleConnsLocked :: "sqlx_DB \<Rightarrow> int" where
  "maxIdleConnsLocked d =
     (let n = maxIdleCount d in if n = 0 then 2 else if n < 0 then 0 else n)"

definition SetMaxIdleConns :: "int \<Rightarrow> sqlx_DB \<Rightarrow> sqlx_DB" where
  "SetMaxIdleConns n d =
     (let d1 = d\<lparr>maxIdleCount := (if 0 < n then n else - 1)\<rparr>
      in if 0 < maxOpen d1 \<and> maxOpen d1 < maxIdleConnsLocked d1
         then d1\<lparr>maxIdleCount := maxOpen d1\<rparr> else d1)"

definition SetMaxOpenConns :: "int \<Rightarrow> sqlx_DB \<Rightarrow> sqlx_DB" where
  "SetMaxOpenConns n d =
     (let d1 = d\<lparr>maxOpen := (if n < 0 then 0 else n)\<rparr>
      in if 0 < maxOpen d1 \<and> maxOpen d1 < maxIdleConnsLocked d1
         then SetMaxIdleConns n d1 else d1)"

subsection \<open>The codec and the four store operations\<close>

text \<open>\<open>extractData\<close>: look the type name up in the registry, then parse the bytes into a
  fresh instance; both failures are returned as errors. The log lines are left out.\<close>

definition extractData :: "('m, 't) codec \<Rightarrow> string \<Rightarrow> string \<Rightarrow> bytes \<Rightarrow> error + 'm" where
  "extractData c actorName msgTypeName msgBytes =
     (case MessageType c msgTypeName of
        None \<Rightarrow> Inl UnsupportedProtocolType
      | Some protoType \<Rightarrow>
          (case Unmarshal c protoType msgBytes of
             Inl err \<Rightarrow> Inl err
           | Inr message \<Rightarrow> Inr message))"

definition GetSnapshotInterval :: "SqlProvider \<Rightarrow> int" where
  "GetSnapshotInterval provider = snapshotInterval provider"

text \<open>\<open>GetSnapshot\<close> returns \<open>(snapshot, eventIndex, ok)\<close>; \<open>None\<close> is the nil interface.\<close>

definition GetSnapshot :: "('m, 't) codec \<Rightarrow> SqlProvider \<Rightarrow> string \<Rightarrow> 'm option \<times> int \<times> bool" where
  "GetSnapshot c provider actorName =
     (let row = QueryRowx_snapshots (db provider) actorName
      in if Row_Err row \<noteq> None then (None, - 1, False)
         else (case Row_Scan row of
                 Inl err \<Rightarrow> (if err = ErrNoRows then (None, - 1, False) else (None, - 1, False))
               | Inr (snapshotType, eventIndex, snapshotBytes) \<Rightarrow>
                   (case extractData c actorName snapshotType snapshotBytes of
                      Inl err \<Rightarrow> (None, - 1, False)
                    | Inr message \<Rightarrow> (Some message, eventIndex, True))))"

text \<open>\<open>PersistSnapshot\<close> and \<open>PersistEvent\<close> return nothing and change the database;
  \<open>Inl err\<close> is \<open>panic(err)\<close>, \<open>Inr\<close> the provider with the database after the call.\<close>

definition PersistSnapshot :: "('m, 't) codec \<Rightarrow> SqlProvider \<Rightarrow> string \<Rightarrow> int \<Rightarrow> 'm \<Rightarrow> error + SqlProvider" where
  "PersistSnapshot c provider actorName eventIndex snapshot =
     (let pbType = MessageName c snapshot
      in case Marshal c snapshot of
           Inl err \<Rightarrow> Inl err
         | Inr pbBytes \<Rightarrow>
             (case Exec (db provider) (InsertOrReplaceSnapshot actorName pbType eventIndex pbBytes) of
                Inl err \<Rightarrow> Inl err
              | Inr d \<Rightarrow> Inr (provider\<lparr>db := d\<rparr>)))"

definition PersistEvent :: "('m, 't) codec \<Rightarrow> SqlProvider \<Rightarrow> string \<Rightarrow> int \<Rightarrow> 'm \<Rightarrow> error + SqlProvider" where
  "PersistEvent c provider actorName eventIndex event =
     (let pbType = MessageName c event
      in case Marshal c event of
           Inl err \<Rightarrow> Inl err
         | Inr pbBytes \<Rightarrow>
             (case Exec (db provider) (InsertOrReplaceEvent actorName pbType eventIndex pbBytes) of
                Inl err \<Rightarrow> Inl err
              | Inr d \<Rightarrow> Inr (provider\<lparr>db := d\<rparr>)))"

text \<open>
  \<open>GetEvents\<close> calls the callback once per row. Its result here is the list of messages the
  callback received, in order, and how the call ended: \<open>None\<close> for a normal return,
  \<open>Some err\<close> for \<open>panic(err)\<close>. The loop body declares the three variables (zero values),
  scans into them without looking at the error \<open>Scan\<close> returns, decodes and calls back; the
  loop ends when \<open>rows.Next()\<close> is false, and \<open>rows.Err()\<close> is not read.
\<close>

fun GetEvents_loop :: "('m, 't) codec \<Rightarrow> string \<Rightarrow> (event_row \<times> (nat \<times> error) option) list \<Rightarrow> 'm list \<times> error option" where
  "GetEvents_loop c actorName [] = ([], None)"
| "GetEvents_loop c actorName (f # fs) =
     (case Rows_Scan f of
        (_, eventType, eventIndex, eventBytes) \<Rightarrow>
          (case extractData c actorName eventType eventBytes of
             Inl err \<Rightarrow> ([], Some err)
           | Inr msg \<Rightarrow>
               (case GetEvents_loop c actorName fs of (msgs, ending) \<Rightarrow> (msg # msgs, ending))))"

definition GetEvents :: "('m, 't) codec \<Rightarrow> SqlProvider \<Rightarrow> string \<Rightarrow> int \<Rightarrow> 'm list \<times> error option" where
  "GetEvents c provider actorName eventIndexStart =
     (case Queryx_events (db provider) actorName eventIndexStart of
        Inl err \<Rightarrow> ([], Some err)
      | Inr rows \<Rightarrow> GetEvents_loop c actorName (fetched rows))"

subsection \<open>Construction\<close>

text \<open>
  A parsed \<open>*url.URL\<close>: the two fields the constructor reads and the text \<open>url.String()\<close>
  gives back.
\<close>

record URL =
  Scheme :: string
  Path :: string
  url_String :: string

datatype env_key = EnvDBURL | EnvSnapshotInterval

text \<open>
  The library calls of the two constructors. \<open>sql_Open driver uri\<close> gives the database
  the handle will reach; package \<open>setup\<close> is read through \<open>setup_GetString\<close>.
\<close>

record sys =
  setup_GetString :: "env_key \<Rightarrow> string"
  url_Parse :: "string \<Rightarrow> error + URL"
  filepath_Dir :: "string \<Rightarrow> string"
  os_MkdirAll :: "string \<Rightarrow> error option"
  sql_Open :: "string \<Rightarrow> string \<Rightarrow> error + database"

definition TrimPrefix :: "string \<Rightarrow> string \<Rightarrow> string" where
  "TrimPrefix s prefix = (if take (length prefix) s = prefix then drop (length prefix) s else s)"

definition tables :: "stmt list" where
  "tables = [CreateEvents, CreateSnapshots]"

text \<open>The loop \<open>for _, v := range tables\<close>: the first failing statement ends construction.\<close>

fun create_tables :: "stmt list \<Rightarrow> sqlx_DB \<Rightarrow> error + sqlx_DB" where
  "create_tables [] d = Inr d"
| "create_tables (v # vs) d =
     (case Exec d v of
        Inl err \<Rightarrow> Inl (CreateTableFailed v err)
      | Inr d' \<Rightarrow> create_tables vs d')"

text \<open>\<open>sql.Open\<close> followed by \<open>sqlx.NewDb\<close>: a handle with the default pool settings.\<close>

definition NewDb :: "database \<Rightarrow> sqlx_DB" where
  "NewDb sqldb = \<lparr>events_tbl = events_tbl sqldb, snapshots_tbl = snapshots_tbl sqldb,
     driver_faults = driver_faults sqldb, maxIdleCount = 0, maxOpen = 0\<rparr>"

definition NewSqlProvider :: "sys \<Rightarrow> URL \<Rightarrow> int \<Rightarrow> error + SqlProvider" where
  "NewSqlProvider w url snapshotInterval' =
     (let driver = Scheme url
      in if driver \<noteq> ''mysql'' \<and> driver \<noteq> ''sqlite3'' then Inl (InvalidDbDriver driver)
         else (case (if driver = ''sqlite3'' then os_MkdirAll w (filepath_Dir w (Path url)) else None) of
                 Some err \<Rightarrow> Inl err
               | None \<Rightarrow>
                   (let uri = TrimPrefix (url_String url) (Scheme url @ ''://'')
                    in case sql_Open w driver uri of
                         Inl err \<Rightarrow> Inl err
                       | Inr sqldb \<Rightarrow>
                           (let sqlxDb = NewDb sqldb
                            in case Ping sqlxDb of
                                 Some err \<Rightarrow> Inl err
                               | None \<Rightarrow>
                                   (let maxIdleConns = 256;
                                        d1 = SetMaxIdleConns maxIdleConns sqlxDb;
                                        d2 = (if driver = ''sqlite3'' then SetMaxOpenConns 1 d1 else d1)
                                    in case create_tables tables d2 of
                                         Inl err \<Rightarrow> Inl err
                                       | Inr d3 \<Rightarrow>
                                           Inr \<lparr>snapshotInterval = snapshotInterval', db = d3\<rparr>)))))"

text \<open>
  \<open>strconv.Atoi\<close>: an optional sign and at least one decimal digit, the value within the
  64-bit \<open>int\<close>; anything else is an error.
\<close>

definition is_digit :: "char \<Rightarrow> bool" where
  "is_digit ch = (ch \<in> set ''0123456789'')"

definition digit_val :: "char \<Rightarrow> int" where
  "digit_val ch = int (of_char ch) - 48"

definition Atoi :: "string \<Rightarrow> error + int" where
  "Atoi s =
     (let neg = (s \<noteq> [] \<and> hd s = CHR ''-'');
          ds = (if s \<noteq> [] \<and> (hd s = CHR ''-'' \<or> hd s = CHR ''+'') then tl s else s)
      in if ds = [] \<or> \<not> list_all is_digit ds then Inl ErrSyntax
         else (let n = foldl (\<lambda>acc ch. acc * 10 + digit_val ch) 0 ds;
                   v = (if neg then - n else n)
               in if v < - (2 ^ 63) \<or> 2 ^ 63 \<le> v then Inl ErrRange else Inr v))"

text \<open>
  The in-memory provider belongs to the actor library (\<open>persistence.NewInMemoryProvider\<close>);
  of it only the interval it is built with appears here.

  \<open>ProviderState\<close> is what a non-nil value of the interface \<open>persistence.ProviderState\<close>
  holds: an \<open>*InMemoryProvider\<close>, or an \<open>*SqlProvider\<close>, which is a pointer and may itself be
  nil (\<open>Sql None\<close>). The nil interface is \<open>None\<close> of \<open>ProviderState option\<close>. A method called
  on the interface runs on what it holds; \<open>GetSnapshotInterval\<close> reads a field of its
  receiver, so on a nil \<open>*SqlProvider\<close> it panics.
\<close>

record InMemoryProvider =
  im_snapshotInterval :: int

definition NewInMemoryProvider :: "int \<Rightarrow> InMemoryProvider" where
  "NewInMemoryProvider n = \<lparr>im_snapshotInterval = n\<rparr>"

datatype ProviderState = InMemory InMemoryProvider | Sql "SqlProvider option"

fun ProviderState_GetSnapshotInterval :: "ProviderState \<Rightarrow> error + int" where
  "ProviderState_GetSnapshotInterval (InMemory p) = Inr (im_snapshotInterval p)"
| "ProviderState_GetSnapshotInterval (Sql None) = Inl NilPointerDereference"
| "ProviderState_GetSnapshotInterval (Sql (Some p)) = Inr (GetSnapshotInterval p)"

text \<open>
  \<open>NewProviderFromEnv\<close> returns the pair \<open>(persistence.ProviderState, error)\<close>, and both
  components are kept. Its first two returns name their results: \<open>nil\<close> with the URL
  error, the in-memory provider with a nil error. The last is
  \<open>return NewSqlProvider(dbUrl, snapshotInterval)\<close>: the \<open>*SqlProvider\<close> that call returns
  is converted to the interface whatever it is, so when \<open>NewSqlProvider\<close> fails the first
  component is a non-nil interface holding the nil pointer.
\<close>

definition NewProviderFromEnv :: "sys \<Rightarrow> ProviderState option \<times> error option" where
  "NewProviderFromEnv w =
     (let dbUrlString = setup_GetString w EnvDBURL
      in case url_Parse w dbUrlString of
           Inl err \<Rightarrow> (None, Some (InvalidDBURL dbUrlString))
         | Inr dbUrl \<Rightarrow>
             (let snapshotIntervalStr = setup_GetString w EnvSnapshotInterval;
                  snapshotInterval' = (case Atoi snapshotIntervalStr of Inl ok \<Rightarrow> 1000 | Inr n \<Rightarrow> n)
              in if Scheme dbUrl = ''inmem''
                 then (Some (InMemory (NewInMemoryProvider snapshotInterval')), None)
                 else (case NewSqlProvider w dbUrl snapshotInterval' of
                         Inl err \<Rightarrow> (Some (Sql None), Some err)
                       | Inr p \<Rightarrow> (Some (Sql (Some p)), None))))"

subsection \<open>Invariants and traces\<close>

text \<open>
  The primary key of table \<open>snapshots\<close>, as a property of its rows: no two rows carry the
  same \<open>actor_name\<close>. The engine keeps it; it is stated here to be proved of the writes.
\<close>

definition snapshots_keyed :: "sqlx_DB \<Rightarrow> bool" where
  "snapshots_keyed d = (case snapshots_tbl d of None \<Rightarrow> True | Some t \<Rightarrow> distinct (map s_actor_name t))"

text \<open>The snapshot rows of one actor (none when the table does not exist).\<close>

definition snapshot_rows :: "sqlx_DB \<Rightarrow> string \<Rightarrow> snapshot_row list" where
  "snapshot_rows d a = (case snapshots_tbl d of None \<Rightarrow> [] | Some t \<Rightarrow> select_snapshots t a)"

text \<open>
  Conditions on the driver under which a read is undisturbed: for \<open>GetSnapshot\<close>, that the
  query succeeds and the first row arrives and scans; for a whole cursor, that no call fails.
\<close>

definition first_row_readable :: "faults \<Rightarrow> bool" where
  "first_row_readable f =
     (query_fault f = None
      \<and> (case next_fault f of None \<Rightarrow> True | Some (n, e) \<Rightarrow> 0 < n)
      \<and> scan_fault f 0 = None)"

definition reads_clean :: "faults \<Rightarrow> bool" where
  "reads_clean f = (query_fault f = None \<and> next_fault f = None \<and> scan_faults f = [])"

text \<open>The writes the host runtime makes on a provider, one after the other; a panic ends
  the sequence.\<close>

datatype 'm store_op = WriteEvent string int 'm | WriteSnapshot string int 'm

fun apply_write :: "('m, 't) codec \<Rightarrow> SqlProvider \<Rightarrow> 'm store_op \<Rightarrow> error + SqlProvider" where
  "apply_write c p (WriteEvent a i m) = PersistEvent c p a i m"
| "apply_write c p (WriteSnapshot a i m) = PersistSnapshot c p a i m"

fun apply_writes :: "('m, 't) codec \<Rightarrow> SqlProvider \<Rightarrow> 'm store_op list \<Rightarrow> error + SqlProvider" where
  "apply_writes c p [] = Inr p"
| "apply_writes c p (w # ws) =
     (case apply_write c p w of Inl err \<Rightarrow> Inl err | Inr p' \<Rightarrow> apply_writes c p' ws)"

text \<open>The last snapshot a sequence of writes holds for an actor, if any.\<close>

fun last_snapshot :: "'m store_op list \<Rightarrow> string \<Rightarrow> (int \<times> 'm) option" where
  "last_snapshot [] a = None"
| "last_snapshot (WriteEvent a' i m # ws) a = last_snapshot ws a"
| "last_snapshot (WriteSnapshot a' i m # ws) a =
     (case last_snapshot ws a of Some s \<Rightarrow> Some s | None \<Rightarrow> if a' = a then Some (i, m) else None)"

text \<open>
  Stages of construction, for stating what happens after them: the directory step is
  passed (it only exists for \<open>sqlite3\<close>), \<open>dsn\<close> is the text handed to \<open>sql.Open\<close>, and the
  constructor reaches database \<open>d\<close> when \<open>sql.Open\<close> then succeeds with it.
\<close>

definition dir_ready :: "sys \<Rightarrow> URL \<Rightarrow> bool" where
  "dir_ready w url =
     (Scheme url = ''mysql''
      \<or> Scheme url = ''sqlite3'' \<and> os_MkdirAll w (filepath_Dir w (Path url)) = None)"

definition dsn :: "URL \<Rightarrow> string" where
  "dsn url = TrimPrefix (url_String url) (Scheme url @ ''://'')"

definition reaches :: "sys \<Rightarrow> URL \<Rightarrow> database \<Rightarrow> bool" where
  "reaches w url d = (dir_ready w url \<and> sql_Open w (Scheme url) (dsn url) = Inr d)"

text \<open>
  The row as the body of the loop in \<open>GetEvents\<close> sees it after a \<open>Scan\<close> that failed at
  column \<open>k\<close>: the variables hold what \<open>scan3\<close> leaves in them.
\<close>

definition after_failed_scan :: "nat \<Rightarrow> event_row \<Rightarrow> event_row" where
  "after_failed_scan k r =
     r\<lparr>event_type := (if 0 < k then event_type r else []),
       e_event_index := (if 1 < k then e_event_index r else 0),
       event_blob := []\<rparr>"

subsection \<open>A concrete codec, database and system\<close>

text \<open>
  Three message shapes whose payload is a list of bytes below 128; a payload with a
  larger byte does not parse. They serve to run the definitions on concrete inputs.
\<close>

datatype demo_msg = EventA bytes | EventB bytes | SnapA bytes

datatype demo_type = TEventA | TEventB | TSnapA

fun demo_payload :: "demo_msg \<Rightarrow> bytes" where
  "demo_payload (EventA b) = b"
| "demo_payload (EventB b) = b"
| "demo_payload (SnapA b) = b"

fun demo_name :: "demo_msg \<Rightarrow> string" where
  "demo_name (EventA b) = ''EventA''"
| "demo_name (EventB b) = ''EventB''"
| "demo_name (SnapA b) = ''SnapA''"

fun demo_new :: "demo_type \<Rightarrow> bytes \<Rightarrow> demo_msg" where
  "demo_new TEventA b = EventA b"
| "demo_new TEventB b = EventB b"
| "demo_new TSnapA b = SnapA b"

definition demo_codec :: "(demo_msg, demo_type) codec" where
  "demo_codec = \<lparr>MessageName = demo_name,
     Marshal = (\<lambda>m. if list_all (\<lambda>x. x < 128) (demo_payload m) then Inr (demo_payload m)
                     else Inl (LibError ''proto: invalid message'')),
     MessageType = (\<lambda>n. if n = ''EventA'' then Some TEventA else if n = ''EventB'' then Some TEventB
                         else if n = ''SnapA'' then Some TSnapA else None),
     Unmarshal = (\<lambda>t b. if list_all (\<lambda>x. x < 128) b then Inr (demo_new t b)
                         else Inl (LibError ''proto: cannot parse''))\<rparr>"

definition ev :: "string \<Rightarrow> string \<Rightarrow> int \<Rightarrow> bytes \<Rightarrow> event_row" where
  "ev a ty i b = \<lparr>e_actor_name = a, event_type = ty, e_event_index = i, event_blob = b\<rparr>"

definition sn :: "string \<Rightarrow> string \<Rightarrow> int \<Rightarrow> bytes \<Rightarrow> snapshot_row" where
  "sn a ty i b = \<lparr>s_actor_name = a, snapshot_type = ty, s_event_index = i, snapshot_blob = b\<rparr>"

definition provider_on :: "event_row list \<Rightarrow> snapshot_row list \<Rightarrow> faults \<Rightarrow> SqlProvider" where
  "provider_on es ss f = \<lparr>snapshotInterval = 1000,
     db = NewDb \<lparr>events_tbl = Some es, snapshots_tbl = Some ss, driver_faults = f\<rparr>\<rparr>"

text \<open>Actor \<open>A\<close> with events at the indices 0, 1, 2, 5, 7, written out of order and
  interleaved with events of actor \<open>B\<close>.\<close>

definition demo_events :: "event_row list" where
  "demo_events = [ev ''A'' ''EventA'' 5 [5], ev ''B'' ''EventB'' 3 [9], ev ''A'' ''EventA'' 0 [10],
     ev ''A'' ''EventB'' 7 [7], ev ''A'' ''EventA'' 1 [1], ev ''B'' ''EventA'' 6 [9], ev ''A'' ''EventB'' 2 [2]]"

text \<open>A sequence of writes in which actor \<open>A\<close> snapshots twice.\<close>

definition demo_writes :: "demo_msg store_op list" where
  "demo_writes = [WriteSnapshot ''A'' 1 (SnapA [1]), WriteEvent ''A'' 2 (EventA [2]),
     WriteSnapshot ''B'' 4 (SnapA [9]), WriteSnapshot ''A'' 5 (SnapA [5])]"

definition conn_refused :: error where
  "conn_refused = LibError ''connection refused''"

text \<open>
  A system whose URL parser splits at the first colon and whose other library calls
  answer with the given values; two URLs; databases and drivers with one fault each.
\<close>

definition fresh_database :: database where
  "fresh_database = \<lparr>events_tbl = None, snapshots_tbl = None, driver_faults = no_faults\<rparr>"

definition demo_url_Parse :: "string \<Rightarrow> error + URL" where
  "demo_url_Parse s =
     (if CHR '' '' \<in> set s then Inl (LibError ''invalid character in URL'')
      else (let scheme = takeWhile (\<lambda>ch. ch \<noteq> CHR '':'') s;
                rest = drop (length scheme + 3) s
            in Inr \<lparr>Scheme = scheme, Path = dropWhile (\<lambda>ch. ch \<noteq> CHR ''/'') rest, url_String = s\<rparr>))"

definition demo_Dir :: "string \<Rightarrow> string" where
  "demo_Dir path =
     (let d = rev (dropWhile (\<lambda>ch. ch \<noteq> CHR ''/'') (rev path))
      in if d = [] then ''.'' else if d = ''/'' then d else butlast d)"

definition demo_sys :: "string \<Rightarrow> string \<Rightarrow> error option \<Rightarrow> error + database \<Rightarrow> sys" where
  "demo_sys dburl interval mkdir opened =
     \<lparr>setup_GetString = (\<lambda>k. case k of EnvDBURL \<Rightarrow> dburl | EnvSnapshotInterval \<Rightarrow> interval),
      url_Parse = demo_url_Parse, filepath_Dir = demo_Dir,
      os_MkdirAll = (\<lambda>dir. mkdir), sql_Open = (\<lambda>driver uri. opened)\<rparr>"

definition perm_denied :: error where
  "perm_denied = LibError ''permission denied''"

definition sqlite_url :: URL where
  "sqlite_url = \<lparr>Scheme = ''sqlite3'', Path = ''/tmp/flow/data.db'', url_String = ''sqlite3:///tmp/flow/data.db''\<rparr>"

definition mysql_url :: URL where
  "mysql_url = \<lparr>Scheme = ''mysql'', Path = ''/flow'', url_String = ''mysql://flow@db/flow''\<rparr>"

definition used_database :: database where
  "used_database = \<lparr>events_tbl = Some [ev ''A'' ''EventA'' 0 [10]], snapshots_tbl = None, driver_faults = no_faults\<rparr>"

definition faulty_database :: "faults \<Rightarrow> database" where
  "faulty_database f = \<lparr>events_tbl = None, snapshots_tbl = None, driver_faults = f\<rparr>"

definition exec_fails_on :: "stmt \<Rightarrow> error \<Rightarrow> faults" where
  "exec_fails_on s e = no_faults\<lparr>exec_fault := (\<lambda>s'. if s' = s then Some e else None)\<rparr>"

definition scan_fails_at :: "nat \<Rightarrow> nat \<Rightarrow> error \<Rightarrow> faults" where
  "scan_fails_at i k e = no_faults\<lparr>scan_faults := [(i, k, e)]\<rparr>"

definition cursor_breaks_after :: "nat \<Rightarrow> error \<Rightarrow> faults" where
  "cursor_breaks_after n e = no_faults\<lparr>next_fault := Some (n, e)\<rparr>"

lemmas demo_simps = demo_codec_def provider_on_def NewDb_def no_faults_def scan_fault_def ev_def sn_def
  demo_events_def extractData_def Exec_def insert_or_replace_def events_conflict_def
  snapshots_conflict_def open_cursor_def enumerate_eq_zip select_events_def select_snapshots_def
  Rows_Scan_def Row_Scan_def Row_Err_def Queryx_events_def QueryRowx_snapshots_def
  snapshot_rows_def first_row_readable_def reads_clean_def conn_refused_def
  scan_fails_at_def cursor_breaks_after_def after_failed_scan_def

lemmas ctor_simps = NewSqlProvider_def NewProviderFromEnv_def demo_sys_def demo_url_Parse_def demo_Dir_def
  sqlite_url_def mysql_url_def fresh_database_def used_database_def faulty_database_def exec_fails_on_def
  perm_denied_def conn_refused_def no_faults_def NewDb_def Ping_def Exec_def tables_def TrimPrefix_def
  SetMaxIdleConns_def SetMaxOpenConns_def maxIdleConnsLocked_def Atoi_def is_digit_def digit_val_def
  NewInMemoryProvider_def GetSnapshotInterval_def reaches_def dir_ready_def dsn_def ev_def Let_def

section \<open>Reading the event log\<close>

subsection \<open>The query and the loop\<close>

lemma open_cursor_healthy:
  assumes "next_fault f = None" and "scan_faults f = []"
  shows "open_cursor f rs = \<lparr>fetched = map (\<lambda>r. (r, None)) rs, lasterr = None\<rparr>"
proof -
  have "map (\<lambda>(i, r). (r, scan_fault f i)) (enumerate n rs) = map (\<lambda>r. (r, None)) rs" for n
    using assms(2) by (induction rs arbitrary: n) (auto simp: scan_fault_def)
  then show ?thesis using assms(1) by (simp add: open_cursor_def)
qed

lemma GetEvents_loop_all_decode:
  assumes "map (\<lambda>r. extractData c a (event_type r) (event_blob r)) rows = map Inr msgs"
  shows "GetEvents_loop c a (map (\<lambda>r. (r, None)) rows) = (msgs, None)"
  using assms
proof (induction rows arbitrary: msgs)
  case Nil
  then show ?case by simp
next
  case (Cons r rows)
  then obtain m ms where ms: "msgs = m # ms" by (cases msgs) auto
  with Cons.prems have "extractData c a (event_type r) (event_blob r) = Inr m"
    and "map (\<lambda>r. extractData c a (event_type r) (event_blob r)) rows = map Inr ms" by auto
  with Cons.IH[of ms] ms show ?case by (simp add: Rows_Scan_def)
qed

lemma GetEvents_loop_stops_at_bad:
  assumes "map (\<lambda>r. extractData c a (event_type r) (event_blob r)) pre = map Inr msgs"
    and "extractData c a (event_type bad) (event_blob bad) = Inl err"
  shows "GetEvents_loop c a (map (\<lambda>r. (r, None)) (pre @ bad # post)) = (msgs, Some err)"
  using assms
proof (induction pre arbitrary: msgs)
  case Nil
  then show ?case by (simp add: Rows_Scan_def)
next
  case (Cons r rows)
  then obtain m ms where ms: "msgs = m # ms" by (cases msgs) auto
  with Cons.prems have "extractData c a (event_type r) (event_blob r) = Inr m"
    and "map (\<lambda>r. extractData c a (event_type r) (event_blob r)) rows = map Inr ms" by auto
  with Cons.IH[of ms] Cons.prems(2) ms show ?case by (simp add: Rows_Scan_def)
qed

lemma decodable_list:
  assumes "\<forall>r\<in>set rows. \<exists>m. f r = Inr m"
  shows "\<exists>msgs. map f rows = map Inr msgs"
  using assms
proof (induction rows)
  case Nil
  then show ?case by simp
next
  case (Cons r rows)
  then obtain m ms where "f r = Inr m" "map f rows = map Inr ms" by auto
  then have "map f (r # rows) = map Inr (m # ms)" by simp
  then show ?case by blast
qed

lemma select_events_sorted: "sorted (map e_event_index (select_events t a start))"
  by (simp add: select_events_def)

lemma select_events_mset:
  "mset (select_events t a start) =
     filter_mset (\<lambda>r. e_actor_name r = a \<and> start \<le> e_event_index r) (mset t)"
  by (simp add: select_events_def)

lemma select_events_set:
  "set (select_events t a start) = {r \<in> set t. e_actor_name r = a \<and> start \<le> e_event_index r}"
  by (simp add: select_events_def)


text \<open>
  C2. When the query and its cursor meet no fault and every matching row decodes,
  \<open>GetEvents\<close> returns normally and the callback receives the decoded messages of exactly
  the rows of the table that carry the actor's name and an index of at least the start
  index (each as often as it is stored), in ascending order of index; no row of another
  actor is among them.
\<close>

theorem GetEvents_delivers_matching_in_order:
  assumes tbl: "events_tbl (db p) = Some t"
    and q: "query_fault (driver_faults (db p)) = None"
    and n: "next_fault (driver_faults (db p)) = None"
    and s: "scan_faults (driver_faults (db p)) = []"
    and dec: "\<forall>r\<in>set t. e_actor_name r = a \<and> start \<le> e_event_index r \<longrightarrow>
                (\<exists>m. extractData c a (event_type r) (event_blob r) = Inr m)"
  shows "\<exists>rows msgs. GetEvents c p a start = (msgs, None)
           \<and> map (\<lambda>r. extractData c a (event_type r) (event_blob r)) rows = map Inr msgs
           \<and> mset rows = filter_mset (\<lambda>r. e_actor_name r = a \<and> start \<le> e_event_index r) (mset t)
           \<and> sorted (map e_event_index rows)
           \<and> (\<forall>r\<in>set rows. e_actor_name r = a)"
proof -
  let ?rows = "select_events t a start"
  have "\<forall>r\<in>set ?rows. \<exists>m. extractData c a (event_type r) (event_blob r) = Inr m"
    using dec by (simp add: select_events_set)
  then obtain msgs where msgs: "map (\<lambda>r. extractData c a (event_type r) (event_blob r)) ?rows = map Inr msgs"
    using decodable_list[of ?rows "\<lambda>r. extractData c a (event_type r) (event_blob r)"] by blast
  have "GetEvents c p a start = GetEvents_loop c a (map (\<lambda>r. (r, None)) ?rows)"
    using tbl q by (simp add: GetEvents_def Queryx_events_def open_cursor_healthy[OF n s])
  then have "GetEvents c p a start = (msgs, None)"
    using GetEvents_loop_all_decode[OF msgs] by simp
  moreover have "\<forall>r\<in>set ?rows. e_actor_name r = a" by (simp add: select_events_set)
  ultimately show ?thesis
    using msgs select_events_mset[of t a start] select_events_sorted[of t a start] by blast
qed


theorem GetEvents_delivers_matching_in_order_witness:
  "GetEvents demo_codec (provider_on demo_events [] no_faults) ''A'' 2
     = ([EventB [2], EventA [5], EventB [7]], None)
   \<and> (\<exists>rows msgs. GetEvents demo_codec (provider_on demo_events [] no_faults) ''A'' 2 = (msgs, None)
         \<and> map (\<lambda>r. extractData demo_codec ''A'' (event_type r) (event_blob r)) rows = map Inr msgs
         \<and> mset rows = filter_mset (\<lambda>r. e_actor_name r = ''A'' \<and> 2 \<le> e_event_index r) (mset demo_events)
         \<and> sorted (map e_event_index rows)
         \<and> (\<forall>r\<in>set rows. e_actor_name r = ''A''))"
proof -
  let ?p = "provider_on demo_events [] no_faults"
  have t: "events_tbl (db ?p) = Some demo_events" by (simp add: provider_on_def NewDb_def)
  have q: "query_fault (driver_faults (db ?p)) = None"
    and n: "next_fault (driver_faults (db ?p)) = None"
    and s: "scan_faults (driver_faults (db ?p)) = []"
    by (simp_all add: provider_on_def NewDb_def no_faults_def)
  have d: "\<forall>r\<in>set demo_events. e_actor_name r = ''A'' \<and> 2 \<le> e_event_index r \<longrightarrow>
             (\<exists>m. extractData demo_codec ''A'' (event_type r) (event_blob r) = Inr m)"
    by (simp add: demo_simps)
  have v: "GetEvents demo_codec ?p ''A'' 2 = ([EventB [2], EventA [5], EventB [7]], None)"
    by (simp add: GetEvents_def demo_simps)
  from GetEvents_delivers_matching_in_order[OF t q n s d] v show ?thesis by blast
qed

section \<open>Writing events\<close>

lemma PersistEvent_appends:
  assumes "PersistEvent c p a i m = Inr p'"
  shows "\<exists>t b. events_tbl (db p) = Some t \<and> Marshal c m = Inr b
           \<and> events_tbl (db p') = Some (t @ [ev a (MessageName c m) i b])
           \<and> snapshots_tbl (db p') = snapshots_tbl (db p)
           \<and> driver_faults (db p') = driver_faults (db p)"
  using assms
  by (auto simp: PersistEvent_def Exec_def Let_def insert_or_replace_def events_conflict_def ev_def
      split: sum.splits option.splits)

text \<open>
  C1. \<open>PersistEvent\<close> for actor \<open>A\<close> and index 3, called twice on an empty table with the
  payloads 1 and 2: the table then holds two rows for \<open>(A, 3)\<close>, and a replay from index 0
  delivers both messages. Table \<open>events\<close> has no key on which \<open>INSERT OR REPLACE\<close> could
  find the earlier row.
\<close>

theorem PersistEvent_same_index_twice_two_rows:
  "(case PersistEvent demo_codec (provider_on [] [] no_faults) ''A'' 3 (EventA [1]) of
      Inl err \<Rightarrow> None
    | Inr p1 \<Rightarrow>
        (case PersistEvent demo_codec p1 ''A'' 3 (EventA [2]) of
           Inl err \<Rightarrow> None
         | Inr p2 \<Rightarrow> Some (events_tbl (db p2), GetEvents demo_codec p2 ''A'' 0)))
   = Some (Some [ev ''A'' ''EventA'' 3 [1], ev ''A'' ''EventA'' 3 [2]], [EventA [1], EventA [2]], None)"
  by (simp add: PersistEvent_def GetEvents_def demo_simps)

section \<open>Snapshots\<close>

subsection \<open>Writing\<close>

lemma PersistSnapshot_effect:
  assumes "PersistSnapshot c p a i m = Inr p'"
  shows "\<exists>t b. snapshots_tbl (db p) = Some t \<and> Marshal c m = Inr b
           \<and> snapshots_tbl (db p') = Some (filter (\<lambda>r. s_actor_name r \<noteq> a) t @ [sn a (MessageName c m) i b])
           \<and> events_tbl (db p') = events_tbl (db p)
           \<and> driver_faults (db p') = driver_faults (db p)"
  using assms
  by (auto simp: PersistSnapshot_def Exec_def Let_def insert_or_replace_def snapshots_conflict_def sn_def
      split: sum.splits option.splits)

lemma PersistSnapshot_keyed:
  assumes "PersistSnapshot c p a i m = Inr p'" and "snapshots_keyed (db p)"
  shows "snapshots_keyed (db p')"
proof -
  from PersistSnapshot_effect[OF assms(1)] obtain t b where
    t: "snapshots_tbl (db p) = Some t"
    and t': "snapshots_tbl (db p') = Some (filter (\<lambda>r. s_actor_name r \<noteq> a) t @ [sn a (MessageName c m) i b])"
    by blast
  from assms(2) t have "distinct (map s_actor_name t)" by (simp add: snapshots_keyed_def)
  then have "distinct (map s_actor_name (filter (\<lambda>r. s_actor_name r \<noteq> a) t))"
    by (rule distinct_map_filter)
  then show ?thesis using t' by (auto simp: snapshots_keyed_def sn_def)
qed

lemma PersistSnapshot_rows:
  assumes "PersistSnapshot c p a i m = Inr p'"
  shows "\<exists>b. Marshal c m = Inr b \<and> snapshots_tbl (db p') \<noteq> None
           \<and> snapshot_rows (db p') a' =
               (if a' = a then [sn a (MessageName c m) i b] else snapshot_rows (db p) a')"
proof -
  from PersistSnapshot_effect[OF assms] obtain t b where
    t: "snapshots_tbl (db p) = Some t" and b: "Marshal c m = Inr b"
    and t': "snapshots_tbl (db p') = Some (filter (\<lambda>r. s_actor_name r \<noteq> a) t @ [sn a (MessageName c m) i b])"
    by blast
  have "filter (\<lambda>r. s_actor_name r = a') (filter (\<lambda>r. s_actor_name r \<noteq> a) t)
          = (if a' = a then [] else filter (\<lambda>r. s_actor_name r = a') t)"
    by (induction t) auto
  then show ?thesis using t t' b
    by (auto simp: snapshot_rows_def select_snapshots_def sn_def)
qed

lemma PersistEvent_keeps_snapshots:
  assumes "PersistEvent c p a i m = Inr p'"
  shows "snapshots_tbl (db p') = snapshots_tbl (db p) \<and> driver_faults (db p') = driver_faults (db p)"
  using assms
  by (auto simp: PersistEvent_def Exec_def Let_def split: sum.splits option.splits)

lemma apply_write_keyed:
  assumes "apply_write c p w = Inr p'" and "snapshots_keyed (db p)"
  shows "snapshots_keyed (db p')"
proof (cases w)
  case (WriteEvent a i m)
  with assms show ?thesis using PersistEvent_keeps_snapshots[of c p a i m p']
    by (simp add: snapshots_keyed_def)
next
  case (WriteSnapshot a i m)
  with assms show ?thesis using PersistSnapshot_keyed[of c p a i m p'] by simp
qed

lemma apply_writes_keyed:
  assumes "apply_writes c p ws = Inr p'" and "snapshots_keyed (db p)"
  shows "snapshots_keyed (db p')"
  using assms
proof (induction ws arbitrary: p)
  case Nil
  then show ?case by simp
next
  case (Cons w ws)
  then obtain p1 where p1: "apply_write c p w = Inr p1" and rest: "apply_writes c p1 ws = Inr p'"
    by (auto split: sum.splits)
  from apply_write_keyed[OF p1 Cons.prems(2)] Cons.IH[OF rest] show ?case by simp
qed

lemma apply_writes_faults:
  assumes "apply_writes c p ws = Inr p'"
  shows "driver_faults (db p') = driver_faults (db p)"
  using assms
proof (induction ws arbitrary: p)
  case Nil
  then show ?case by simp
next
  case (Cons w ws)
  then obtain p1 where p1: "apply_write c p w = Inr p1" and rest: "apply_writes c p1 ws = Inr p'"
    by (auto split: sum.splits)
  have "driver_faults (db p1) = driver_faults (db p)"
  proof (cases w)
    case (WriteEvent a i m)
    with p1 show ?thesis using PersistEvent_keeps_snapshots[of c p a i m p1] by simp
  next
    case (WriteSnapshot a i m)
    with p1 show ?thesis using PersistSnapshot_effect[of c p a i m p1] by auto
  qed
  with Cons.IH[OF rest] show ?case by simp
qed

lemma apply_write_keeps_table:
  assumes "apply_write c p w = Inr p'" and "snapshots_tbl (db p) \<noteq> None"
  shows "snapshots_tbl (db p') \<noteq> None"
proof (cases w)
  case (WriteEvent a i m)
  with assms show ?thesis using PersistEvent_keeps_snapshots[of c p a i m p'] by simp
next
  case (WriteSnapshot a i m)
  with assms show ?thesis using PersistSnapshot_effect[of c p a i m p'] by auto
qed

lemma apply_writes_keeps_table:
  assumes "apply_writes c p ws = Inr p'" and "snapshots_tbl (db p) \<noteq> None"
  shows "snapshots_tbl (db p') \<noteq> None"
  using assms
proof (induction ws arbitrary: p)
  case Nil
  then show ?case by simp
next
  case (Cons w ws)
  then obtain p1 where p1: "apply_write c p w = Inr p1" and rest: "apply_writes c p1 ws = Inr p'"
    by (auto split: sum.splits)
  from Cons.IH[OF rest apply_write_keeps_table[OF p1 Cons.prems(2)]] show ?case .
qed

lemma apply_writes_rows:
  assumes "apply_writes c p ws = Inr p'"
  shows "case last_snapshot ws a of
           None \<Rightarrow> snapshot_rows (db p') a = snapshot_rows (db p) a
         | Some (i, m) \<Rightarrow> \<exists>b. Marshal c m = Inr b \<and> snapshots_tbl (db p') \<noteq> None
                              \<and> snapshot_rows (db p') a = [sn a (MessageName c m) i b]"
  using assms
proof (induction ws arbitrary: p)
  case Nil
  then show ?case by simp
next
  case (Cons w ws)
  then obtain p1 where p1: "apply_write c p w = Inr p1" and rest: "apply_writes c p1 ws = Inr p'"
    by (auto split: sum.splits)
  note ih = Cons.IH[OF rest]
  show ?case
  proof (cases "last_snapshot ws a")
    case (Some s)
    with ih show ?thesis by (cases w) (auto split: prod.splits)
  next
    case None
    with ih have same: "snapshot_rows (db p') a = snapshot_rows (db p1) a" by simp
    show ?thesis
    proof (cases w)
      case (WriteEvent a' i m)
      with p1 have "snapshot_rows (db p1) a = snapshot_rows (db p) a"
        using PersistEvent_keeps_snapshots[of c p a' i m p1] by (simp add: snapshot_rows_def)
      with same None WriteEvent show ?thesis by simp
    next
      case (WriteSnapshot a' i m)
      with p1 have ps: "PersistSnapshot c p a' i m = Inr p1" by simp
      from PersistSnapshot_rows[OF ps, of a] obtain b where
        b: "Marshal c m = Inr b" and ex: "snapshots_tbl (db p1) \<noteq> None"
        and r: "snapshot_rows (db p1) a = (if a = a' then [sn a' (MessageName c m) i b] else snapshot_rows (db p) a)"
        by blast
      have ex': "snapshots_tbl (db p') \<noteq> None"
        by (rule apply_writes_keeps_table[OF rest ex])
      show ?thesis
      proof (cases "a' = a")
        case True
        with same r b ex' None WriteSnapshot show ?thesis by auto
      next
        case False
        with same r None WriteSnapshot show ?thesis by auto
      qed
    qed
  qed
qed

subsection \<open>Reading\<close>

lemma open_cursor_empty: "fetched (open_cursor f []) = []"
  by (simp add: open_cursor_def split: option.splits prod.splits)

lemma open_cursor_first:
  "fetched (open_cursor f (r # rs)) =
     (if \<exists>e. next_fault f = Some (0, e) then []
      else (r, scan_fault f 0) # tl (fetched (open_cursor f (r # rs))))"
  by (cases "next_fault f") (auto simp: open_cursor_def take_Cons' split: prod.splits)

lemma open_cursor_broken_at_start:
  "next_fault f = Some (0, e) \<Longrightarrow> lasterr (open_cursor f rs) = Some e"
  by (simp add: open_cursor_def)

lemma GetSnapshot_no_rows:
  assumes "snapshot_rows (db p) a = []"
  shows "GetSnapshot c p a = (None, - 1, False)"
  using assms
  by (auto simp: GetSnapshot_def QueryRowx_snapshots_def Row_Err_def Row_Scan_def snapshot_rows_def
      open_cursor_empty split: option.splits sum.splits list.splits)

lemma GetSnapshot_query_error:
  assumes "query_fault (driver_faults (db p)) = Some e"
  shows "GetSnapshot c p a = (None, - 1, False)"
  using assms by (simp add: GetSnapshot_def QueryRowx_snapshots_def Row_Err_def)

lemma GetSnapshot_no_table:
  assumes "snapshots_tbl (db p) = None"
  shows "GetSnapshot c p a = (None, - 1, False)"
  using assms by (simp add: GetSnapshot_def QueryRowx_snapshots_def Row_Err_def split: option.splits)

lemma GetSnapshot_first_row:
  assumes "snapshots_tbl (db p) = Some t" and "select_snapshots t a = r # rs"
    and "query_fault (driver_faults (db p)) = None"
  shows "GetSnapshot c p a =
     (if \<exists>e. next_fault (driver_faults (db p)) = Some (0, e) then (None, - 1, False)
      else case scan_fault (driver_faults (db p)) 0 of
             Some ke \<Rightarrow> (None, - 1, False)
           | None \<Rightarrow> (case extractData c a (snapshot_type r) (snapshot_blob r) of
                        Inl err \<Rightarrow> (None, - 1, False)
                      | Inr m \<Rightarrow> (Some m, s_event_index r, True)))"
proof (cases "\<exists>e. next_fault (driver_faults (db p)) = Some (0, e)")
  case True
  then obtain e where e: "next_fault (driver_faults (db p)) = Some (0, e)" by blast
  have "fetched (open_cursor (driver_faults (db p)) (r # rs)) = []"
    using open_cursor_first[of "driver_faults (db p)" r rs] True by simp
  with assms e True show ?thesis
    by (simp add: GetSnapshot_def QueryRowx_snapshots_def Row_Err_def Row_Scan_def
        open_cursor_broken_at_start)
next
  case False
  then obtain fs where
    "fetched (open_cursor (driver_faults (db p)) (r # rs)) = (r, scan_fault (driver_faults (db p)) 0) # fs"
    using open_cursor_first[of "driver_faults (db p)" r rs] by auto
  with assms False show ?thesis
    by (cases "scan_fault (driver_faults (db p)) 0")
       (auto simp: GetSnapshot_def QueryRowx_snapshots_def Row_Err_def Row_Scan_def
        split: sum.splits)
qed

lemma GetSnapshot_absent_or_found:
  "GetSnapshot c p a = (None, - 1, False) \<or> (\<exists>m i. GetSnapshot c p a = (Some m, i, True))"
  by (auto simp: GetSnapshot_def Let_def split: sum.splits prod.splits)

lemma distinct_key_filter:
  "distinct (map f xs) \<Longrightarrow> length (filter (\<lambda>x. f x = a) xs) \<le> 1"
  by (induction xs) (auto simp: filter_empty_conv image_iff)

lemma keyed_at_most_one:
  "snapshots_keyed d \<Longrightarrow> length (snapshot_rows d a) \<le> 1"
  using distinct_key_filter[of s_actor_name _ a]
  by (auto simp: snapshots_keyed_def snapshot_rows_def select_snapshots_def split: option.splits)

lemma last_snapshot_None:
  "last_snapshot ws a = None \<longleftrightarrow> (\<forall>i m. WriteSnapshot a i m \<notin> set ws)"
  by (induction ws a rule: last_snapshot.induct) (auto split: option.splits)

lemma extractData_error:
  "extractData c a ty b = Inl e \<longleftrightarrow>
     (MessageType c ty = None \<and> e = UnsupportedProtocolType)
     \<or> (\<exists>t. MessageType c ty = Some t \<and> Unmarshal c t b = Inl e)"
  by (auto simp: extractData_def split: option.splits sum.splits)

subsection \<open>The claims about snapshots\<close>

text \<open>
  C3. On a table that holds at most one row per actor, after any sequence of writes that
  does not panic the table still holds at most one row per actor; and for an actor whose
  last \<open>PersistSnapshot\<close> in the sequence wrote message \<open>m\<close> at index \<open>i\<close>, the table holds
  for that actor exactly the one row of \<open>m\<close> and \<open>i\<close>, and \<open>GetSnapshot\<close> returns
  \<open>(m, i, true)\<close> when the read meets no fault and the codec decodes what it encoded of \<open>m\<close>.
\<close>

theorem snapshot_single_row_latest_wins:
  assumes k: "snapshots_keyed (db p)" and w: "apply_writes c p ws = Inr p'"
  shows "snapshots_keyed (db p')
     \<and> (\<forall>a. length (snapshot_rows (db p') a) \<le> 1)
     \<and> (\<forall>a i m. last_snapshot ws a = Some (i, m) \<longrightarrow>
          (\<exists>b. Marshal c m = Inr b \<and> snapshot_rows (db p') a = [sn a (MessageName c m) i b])
          \<and> (first_row_readable (driver_faults (db p'))
               \<and> (\<forall>b. Marshal c m = Inr b \<longrightarrow> extractData c a (MessageName c m) b = Inr m)
             \<longrightarrow> GetSnapshot c p' a = (Some m, i, True)))"
proof (intro conjI allI impI)
  show k': "snapshots_keyed (db p')" by (rule apply_writes_keyed[OF w k])
  show "length (snapshot_rows (db p') a) \<le> 1" for a by (rule keyed_at_most_one[OF k'])
next
  fix a i m
  assume l: "last_snapshot ws a = Some (i, m)"
  from apply_writes_rows[OF w, of a] l
  show "\<exists>b. Marshal c m = Inr b \<and> snapshot_rows (db p') a = [sn a (MessageName c m) i b]"
    by auto
next
  fix a i m
  assume l: "last_snapshot ws a = Some (i, m)"
    and h: "first_row_readable (driver_faults (db p'))
              \<and> (\<forall>b. Marshal c m = Inr b \<longrightarrow> extractData c a (MessageName c m) b = Inr m)"
  from apply_writes_rows[OF w, of a] l obtain b where
    b: "Marshal c m = Inr b" and ex: "snapshots_tbl (db p') \<noteq> None"
    and rows: "snapshot_rows (db p') a = [sn a (MessageName c m) i b]" by auto
  from ex obtain t where t: "snapshots_tbl (db p') = Some t" by auto
  with rows have sel: "select_snapshots t a = sn a (MessageName c m) i b # []"
    by (simp add: snapshot_rows_def)
  from h b have dec: "extractData c a (MessageName c m) b = Inr m" by blast
  from h have q: "query_fault (driver_faults (db p')) = None"
    and n: "\<not> (\<exists>e. next_fault (driver_faults (db p')) = Some (0, e))"
    and s: "scan_fault (driver_faults (db p')) 0 = None"
    by (auto simp: first_row_readable_def split: option.splits)
  show "GetSnapshot c p' a = (Some m, i, True)"
    using GetSnapshot_first_row[OF t sel q, of c] n s dec by (simp add: sn_def)
qed

theorem snapshot_single_row_latest_wins_witness:
  "snapshots_keyed (db (provider_on [] [] no_faults))
   \<and> apply_writes demo_codec (provider_on [] [] no_faults) demo_writes
       = Inr (provider_on [ev ''A'' ''EventA'' 2 [2]]
                [sn ''B'' ''SnapA'' 4 [9], sn ''A'' ''SnapA'' 5 [5]] no_faults)
   \<and> last_snapshot demo_writes ''A'' = Some (5, SnapA [5])
   \<and> snapshot_rows (db (provider_on [ev ''A'' ''EventA'' 2 [2]]
                [sn ''B'' ''SnapA'' 4 [9], sn ''A'' ''SnapA'' 5 [5]] no_faults)) ''A''
       = [sn ''A'' ''SnapA'' 5 [5]]
   \<and> GetSnapshot demo_codec (provider_on [ev ''A'' ''EventA'' 2 [2]]
                [sn ''B'' ''SnapA'' 4 [9], sn ''A'' ''SnapA'' 5 [5]] no_faults) ''A''
       = (Some (SnapA [5]), 5, True)"
proof -
  let ?p = "provider_on [] [] no_faults"
  let ?p' = "provider_on [ev ''A'' ''EventA'' 2 [2]]
                [sn ''B'' ''SnapA'' 4 [9], sn ''A'' ''SnapA'' 5 [5]] no_faults"
  have k: "snapshots_keyed (db ?p)" by (simp add: snapshots_keyed_def provider_on_def NewDb_def)
  have w: "apply_writes demo_codec ?p demo_writes = Inr ?p'"
    by (simp add: demo_writes_def PersistSnapshot_def PersistEvent_def demo_simps)
  have l: "last_snapshot demo_writes ''A'' = Some (5, SnapA [5])" by (simp add: demo_writes_def)
  have h: "first_row_readable (driver_faults (db ?p'))
     \<and> (\<forall>b. Marshal demo_codec (SnapA [5]) = Inr b \<longrightarrow>
            extractData demo_codec ''A'' (MessageName demo_codec (SnapA [5])) b = Inr (SnapA [5]))"
    by (auto simp: first_row_readable_def demo_simps)
  from snapshot_single_row_latest_wins[OF k w] l h
  have "(\<exists>b. Marshal demo_codec (SnapA [5]) = Inr b
           \<and> snapshot_rows (db ?p') ''A'' = [sn ''A'' (MessageName demo_codec (SnapA [5])) 5 b])
        \<and> GetSnapshot demo_codec ?p' ''A'' = (Some (SnapA [5]), 5, True)"
    by blast
  then have "snapshot_rows (db ?p') ''A'' = [sn ''A'' ''SnapA'' 5 [5]]
        \<and> GetSnapshot demo_codec ?p' ''A'' = (Some (SnapA [5]), 5, True)"
    by (auto simp: demo_codec_def)
  with k w l show ?thesis by simp
qed

text \<open>
  C6. For an actor that has no snapshot row to begin with and for which no
  \<open>PersistSnapshot\<close> is among the writes made since, \<open>GetSnapshot\<close> returns
  \<open>(nil, -1, false)\<close>, whatever the driver does.
\<close>

theorem GetSnapshot_never_persisted_absent:
  assumes "snapshot_rows (db p0) a = []" and "apply_writes c p0 ws = Inr p"
    and "\<forall>i m. WriteSnapshot a i m \<notin> set ws"
  shows "GetSnapshot c p a = (None, - 1, False)"
proof -
  from assms(3) have "last_snapshot ws a = None" by (simp add: last_snapshot_None)
  with apply_writes_rows[OF assms(2), of a] assms(1) have "snapshot_rows (db p) a = []" by simp
  then show ?thesis by (rule GetSnapshot_no_rows)
qed

theorem GetSnapshot_never_persisted_absent_witness:
  "snapshot_rows (db (provider_on [] [sn ''B'' ''SnapA'' 0 [10]] no_faults)) ''A'' = []
   \<and> apply_writes demo_codec (provider_on [] [sn ''B'' ''SnapA'' 0 [10]] no_faults)
        [WriteEvent ''A'' 0 (EventA [10]), WriteSnapshot ''B'' 1 (SnapA [1])]
       = Inr (provider_on [ev ''A'' ''EventA'' 0 [10]] [sn ''B'' ''SnapA'' 1 [1]] no_faults)
   \<and> GetSnapshot demo_codec (provider_on [ev ''A'' ''EventA'' 0 [10]] [sn ''B'' ''SnapA'' 1 [1]] no_faults) ''A''
       = (None, - 1, False)"
proof -
  let ?init = "provider_on [] [sn ''B'' ''SnapA'' 0 [10]] no_faults"
  let ?ws = "[WriteEvent ''A'' 0 (EventA [10]), WriteSnapshot ''B'' 1 (SnapA [1])]"
  let ?p = "provider_on [ev ''A'' ''EventA'' 0 [10]] [sn ''B'' ''SnapA'' 1 [1]] no_faults"
  have r: "snapshot_rows (db ?init) ''A'' = []" by (simp add: demo_simps)
  have w: "apply_writes demo_codec ?init ?ws = Inr ?p"
    by (simp add: PersistSnapshot_def PersistEvent_def demo_simps)
  have n: "\<forall>i m. WriteSnapshot ''A'' i m \<notin> set ?ws" by simp

  from GetSnapshot_never_persisted_absent[OF r w n] r w show ?thesis by simp
qed

text \<open>
  C9. \<open>GetSnapshot\<close> returns \<open>(nil, -1, false)\<close> when the query fails, when the cursor
  fails before the first row or the scan of the first row fails, when the row does not
  decode, and when the actor has no row; it has no other result than that one and
  \<open>(message, index, true)\<close>, so no error reaches the caller.
\<close>

theorem GetSnapshot_every_failure_is_absent:
  "(query_fault (driver_faults (db p)) = Some e \<longrightarrow> GetSnapshot c p a = (None, - 1, False))
   \<and> (snapshots_tbl (db p) = Some t \<and> select_snapshots t a = r # rs
        \<and> query_fault (driver_faults (db p)) = None
        \<and> (next_fault (driver_faults (db p)) = Some (0, e)
            \<or> scan_fault (driver_faults (db p)) 0 = Some (k, e))
      \<longrightarrow> GetSnapshot c p a = (None, - 1, False))
   \<and> (snapshots_tbl (db p) = Some t \<and> select_snapshots t a = r # rs
        \<and> first_row_readable (driver_faults (db p))
        \<and> extractData c a (snapshot_type r) (snapshot_blob r) = Inl e
      \<longrightarrow> GetSnapshot c p a = (None, - 1, False))
   \<and> (snapshot_rows (db p) a = [] \<longrightarrow> GetSnapshot c p a = (None, - 1, False))
   \<and> (GetSnapshot c p a = (None, - 1, False) \<or> (\<exists>m i. GetSnapshot c p a = (Some m, i, True)))"
proof (intro conjI impI)
  show "GetSnapshot c p a = (None, - 1, False)" if "query_fault (driver_faults (db p)) = Some e"
    using that by (rule GetSnapshot_query_error)
  show "GetSnapshot c p a = (None, - 1, False)"
    if "snapshots_tbl (db p) = Some t \<and> select_snapshots t a = r # rs
        \<and> query_fault (driver_faults (db p)) = None
        \<and> (next_fault (driver_faults (db p)) = Some (0, e)
            \<or> scan_fault (driver_faults (db p)) 0 = Some (k, e))"
    using that GetSnapshot_first_row[of p t a r rs c] by auto
  show "GetSnapshot c p a = (None, - 1, False)"
    if "snapshots_tbl (db p) = Some t \<and> select_snapshots t a = r # rs
        \<and> first_row_readable (driver_faults (db p))
        \<and> extractData c a (snapshot_type r) (snapshot_blob r) = Inl e"
    using that GetSnapshot_first_row[of p t a r rs c] by (auto simp: first_row_readable_def)
  show "GetSnapshot c p a = (None, - 1, False)" if "snapshot_rows (db p) a = []"
    using that by (rule GetSnapshot_no_rows)
  show "GetSnapshot c p a = (None, - 1, False) \<or> (\<exists>m i. GetSnapshot c p a = (Some m, i, True))"
    by (rule GetSnapshot_absent_or_found)
qed

theorem GetSnapshot_every_failure_is_absent_witness:
  "GetSnapshot demo_codec
     (provider_on [] [sn ''A'' ''SnapA'' 1 [1]] (no_faults\<lparr>query_fault := Some conn_refused\<rparr>)) ''A''
     = (None, - 1, False)
   \<and> GetSnapshot demo_codec
     (provider_on [] [sn ''A'' ''SnapA'' 1 [1]] (scan_fails_at 0 1 conn_refused)) ''A''
     = (None, - 1, False)
   \<and> GetSnapshot demo_codec (provider_on [] [sn ''A'' ''Gone'' 1 [1]] no_faults) ''A'' = (None, - 1, False)
   \<and> GetSnapshot demo_codec (provider_on [] [sn ''B'' ''SnapA'' 1 [1]] no_faults) ''A'' = (None, - 1, False)
   \<and> GetSnapshot demo_codec (provider_on [] [sn ''A'' ''SnapA'' 1 [1]] no_faults) ''A'' = (Some (SnapA [1]), 1, True)"
proof -
  let ?t = "[sn ''A'' ''SnapA'' 1 [1]]"
  let ?p1 = "provider_on [] ?t (no_faults\<lparr>query_fault := Some conn_refused\<rparr>)"
  let ?p2 = "provider_on [] ?t (scan_fails_at 0 1 conn_refused)"
  let ?p3 = "provider_on [] [sn ''A'' ''Gone'' 1 [1]] no_faults"
  let ?p4 = "provider_on [] [sn ''B'' ''SnapA'' 1 [1]] no_faults"
  let ?p5 = "provider_on [] ?t no_faults"
  have a1: "query_fault (driver_faults (db ?p1)) = Some conn_refused" by (simp add: demo_simps)
  have a2: "snapshots_tbl (db ?p2) = Some ?t \<and> select_snapshots ?t ''A'' = sn ''A'' ''SnapA'' 1 [1] # []
        \<and> query_fault (driver_faults (db ?p2)) = None
        \<and> (next_fault (driver_faults (db ?p2)) = Some (0, conn_refused)
            \<or> scan_fault (driver_faults (db ?p2)) 0 = Some (1, conn_refused))"
    by (simp add: demo_simps)
  have a3: "snapshots_tbl (db ?p3) = Some [sn ''A'' ''Gone'' 1 [1]]
        \<and> select_snapshots [sn ''A'' ''Gone'' 1 [1]] ''A'' = sn ''A'' ''Gone'' 1 [1] # []
        \<and> first_row_readable (driver_faults (db ?p3))
        \<and> extractData demo_codec ''A'' (snapshot_type (sn ''A'' ''Gone'' 1 [1]))
             (snapshot_blob (sn ''A'' ''Gone'' 1 [1])) = Inl UnsupportedProtocolType"
    by (simp add: demo_simps)
  have a4: "snapshot_rows (db ?p4) ''A'' = []" by (simp add: demo_simps)
  have a5: "GetSnapshot demo_codec ?p5 ''A'' \<noteq> (None, - 1, False)"
    by (simp add: GetSnapshot_def demo_simps)
  have "GetSnapshot demo_codec ?p1 ''A'' = (None, - 1, False)"
    using GetSnapshot_every_failure_is_absent[of ?p1 conn_refused demo_codec "''A''"] a1 by blast
  moreover have "GetSnapshot demo_codec ?p2 ''A'' = (None, - 1, False)"
    using GetSnapshot_every_failure_is_absent[of ?p2 conn_refused demo_codec "''A''" ?t
        "sn ''A'' ''SnapA'' 1 [1]" "[]" 1] a2 by blast
  moreover have "GetSnapshot demo_codec ?p3 ''A'' = (None, - 1, False)"
    using GetSnapshot_every_failure_is_absent[of ?p3 UnsupportedProtocolType demo_codec "''A''"
        "[sn ''A'' ''Gone'' 1 [1]]" "sn ''A'' ''Gone'' 1 [1]" "[]"] a3 by blast
  moreover have "GetSnapshot demo_codec ?p4 ''A'' = (None, - 1, False)"
    using GetSnapshot_every_failure_is_absent[of ?p4 _ demo_codec "''A''"] a4 by blast
  moreover have "GetSnapshot demo_codec ?p5 ''A'' = (Some (SnapA [1]), 1, True)"
    by (simp add: GetSnapshot_def demo_simps)
  ultimately show ?thesis by blast
qed

section \<open>Decode failures on the two read paths\<close>

text \<open>
  C4. With no driver fault: when the actor's snapshot row does not decode (its type name
  is not registered, or its payload does not parse), \<open>GetSnapshot\<close> returns
  \<open>(nil, -1, false)\<close>, the result it gives on an empty table; when a matching event row
  does not decode, \<open>GetEvents\<close> panics with the decode error after the callback has
  received the messages of the rows before it, and the rows after it are not delivered.
\<close>

theorem decode_failure_absent_snapshot_aborted_replay:
  assumes clean: "reads_clean (driver_faults (db p))"
  shows "(snapshots_tbl (db p) = Some ts \<and> select_snapshots ts a = r # rs
            \<and> extractData c a (snapshot_type r) (snapshot_blob r) = Inl e
          \<longrightarrow> GetSnapshot c p a = (None, - 1, False)
              \<and> GetSnapshot c (p\<lparr>db := (db p)\<lparr>snapshots_tbl := Some []\<rparr>\<rparr>) a = (None, - 1, False))
       \<and> (events_tbl (db p) = Some te \<and> select_events te a start = pre @ bad # post
            \<and> map (\<lambda>r. extractData c a (event_type r) (event_blob r)) pre = map Inr msgs
            \<and> extractData c a (event_type bad) (event_blob bad) = Inl e'
          \<longrightarrow> GetEvents c p a start = (msgs, Some e'))"
proof (intro conjI impI)
  from clean have q: "query_fault (driver_faults (db p)) = None"
    and n: "next_fault (driver_faults (db p)) = None"
    and s: "scan_faults (driver_faults (db p)) = []"
    by (auto simp: reads_clean_def)
  {
    assume h: "snapshots_tbl (db p) = Some ts \<and> select_snapshots ts a = r # rs
            \<and> extractData c a (snapshot_type r) (snapshot_blob r) = Inl e"
    then show "GetSnapshot c p a = (None, - 1, False)"
      using GetSnapshot_first_row[of p ts a r rs c] q n s by (simp add: scan_fault_def)
    show "GetSnapshot c (p\<lparr>db := (db p)\<lparr>snapshots_tbl := Some []\<rparr>\<rparr>) a = (None, - 1, False)"
      by (rule GetSnapshot_no_rows) (simp add: snapshot_rows_def select_snapshots_def)
  }
  {
    assume h: "events_tbl (db p) = Some te \<and> select_events te a start = pre @ bad # post
            \<and> map (\<lambda>r. extractData c a (event_type r) (event_blob r)) pre = map Inr msgs
            \<and> extractData c a (event_type bad) (event_blob bad) = Inl e'"
    then have "GetEvents c p a start = GetEvents_loop c a (map (\<lambda>r. (r, None)) (pre @ bad # post))"
      using q by (simp add: GetEvents_def Queryx_events_def open_cursor_healthy[OF n s])
    then show "GetEvents c p a start = (msgs, Some e')"
      using h GetEvents_loop_stops_at_bad[of c a pre msgs bad e' post] by simp
  }
qed

theorem decode_failure_absent_snapshot_aborted_replay_witness:
  "reads_clean (driver_faults (db (provider_on
       [ev ''A'' ''EventA'' 0 [10], ev ''A'' ''Gone'' 1 [1], ev ''A'' ''EventA'' 2 [2]]
       [sn ''A'' ''SnapA'' 3 [200]] no_faults)))
   \<and> GetSnapshot demo_codec (provider_on
       [ev ''A'' ''EventA'' 0 [10], ev ''A'' ''Gone'' 1 [1], ev ''A'' ''EventA'' 2 [2]]
       [sn ''A'' ''SnapA'' 3 [200]] no_faults) ''A'' = (None, - 1, False)
   \<and> GetEvents demo_codec (provider_on
       [ev ''A'' ''EventA'' 0 [10], ev ''A'' ''Gone'' 1 [1], ev ''A'' ''EventA'' 2 [2]]
       [sn ''A'' ''SnapA'' 3 [200]] no_faults) ''A'' 0 = ([EventA [10]], Some UnsupportedProtocolType)"
proof -
  let ?te = "[ev ''A'' ''EventA'' 0 [10], ev ''A'' ''Gone'' 1 [1], ev ''A'' ''EventA'' 2 [2]]"
  let ?ts = "[sn ''A'' ''SnapA'' 3 [200]]"
  let ?p = "provider_on ?te ?ts no_faults"
  have c: "reads_clean (driver_faults (db ?p))" by (simp add: demo_simps)
  have s: "snapshots_tbl (db ?p) = Some ?ts \<and> select_snapshots ?ts ''A'' = sn ''A'' ''SnapA'' 3 [200] # []
            \<and> extractData demo_codec ''A'' (snapshot_type (sn ''A'' ''SnapA'' 3 [200]))
                (snapshot_blob (sn ''A'' ''SnapA'' 3 [200])) = Inl (LibError ''proto: cannot parse'')"
    by (simp add: demo_simps)
  have e: "events_tbl (db ?p) = Some ?te
            \<and> select_events ?te ''A'' 0 = [ev ''A'' ''EventA'' 0 [10]] @ ev ''A'' ''Gone'' 1 [1] # [ev ''A'' ''EventA'' 2 [2]]
            \<and> map (\<lambda>r. extractData demo_codec ''A'' (event_type r) (event_blob r)) [ev ''A'' ''EventA'' 0 [10]]
                = map Inr [EventA [10]]
            \<and> extractData demo_codec ''A'' (event_type (ev ''A'' ''Gone'' 1 [1])) (event_blob (ev ''A'' ''Gone'' 1 [1]))
                = Inl UnsupportedProtocolType"
    by (simp add: demo_simps)
  from decode_failure_absent_snapshot_aborted_replay[OF c, of ?ts "''A''" "sn ''A'' ''SnapA'' 3 [200]" "[]"
      demo_codec "LibError ''proto: cannot parse''" ?te 0 "[ev ''A'' ''EventA'' 0 [10]]"
      "ev ''A'' ''Gone'' 1 [1]" "[ev ''A'' ''EventA'' 2 [2]]" "[EventA [10]]" UnsupportedProtocolType] s e c
  show ?thesis by blast
qed

section \<open>Scan and cursor errors in \<open>GetEvents\<close>\<close>

lemma Rows_Scan_failed:
  "snd (Rows_Scan (r, Some (k, e))) = snd (Rows_Scan (after_failed_scan k r, None))"
  by (simp add: Rows_Scan_def after_failed_scan_def)

lemma GetEvents_loop_scan_error_dropped:
  "GetEvents_loop c a (pre @ (r, Some (k, e)) # post)
     = GetEvents_loop c a (pre @ (after_failed_scan k r, None) # post)"
proof (induction pre)
  case Nil
  show ?case using Rows_Scan_failed[of r k e]
    by (cases "Rows_Scan (r, Some (k, e))"; cases "Rows_Scan (after_failed_scan k r, None)") simp
next
  case (Cons f pre)
  then show ?case by (simp split: prod.splits sum.splits)
qed

lemma open_cursor_one_scan_fault:
  assumes "next_fault f = None" and "scan_faults f = [(i, k, e)]"
    and "i < length rows"
  shows "fetched (open_cursor f rows)
           = map (\<lambda>r. (r, None)) (take i rows) @ (rows ! i, Some (k, e)) # map (\<lambda>r. (r, None)) (drop (Suc i) rows)"
proof -
  have "fetched (open_cursor f rows) = map (\<lambda>(j, r). (r, if j = i then Some (k, e) else None)) (enumerate 0 rows)"
    using assms(1,2) by (simp add: open_cursor_def scan_fault_def)
  also have "\<dots> = map (\<lambda>r. (r, None)) (take i rows) @ (rows ! i, Some (k, e)) # map (\<lambda>r. (r, None)) (drop (Suc i) rows)"
    using assms(3)
    by (intro nth_equalityI) (auto simp: nth_enumerate_eq nth_append min_def nth_Cons')
  finally show ?thesis .
qed

lemma open_cursor_broken:
  assumes "next_fault f = Some (n, e)" and "scan_faults f = []" and "n \<le> length rows"
  shows "open_cursor f rows = \<lparr>fetched = map (\<lambda>r. (r, None)) (take n rows), lasterr = Some e\<rparr>"
proof -
  have "map (\<lambda>(i, r). (r, scan_fault f i)) (enumerate m xs) = map (\<lambda>r. (r, None)) xs" for m and xs :: "'a list"
    using assms(2) by (induction xs arbitrary: m) (auto simp: scan_fault_def)
  then show ?thesis using assms(1,3) by (simp add: open_cursor_def)
qed

text \<open>
  C10, as stated, at one row \<open>(A, EventA, 0, payload)\<close> whose scan fails at the second
  column: the type name has been assigned, so decoding is fed \<open>EventA\<close> with an empty
  payload, succeeds, and the callback receives an empty \<open>EventA\<close>; fed the zero values
  (empty type name, empty payload) the call would have panicked on the unregistered name.
\<close>

theorem scan_failure_feeds_zero_values_counterexample:
  "Rows_Scan (ev ''A'' ''EventA'' 0 [10], Some (1, conn_refused)) = (Some conn_refused, ''EventA'', 0, [])
   \<and> ''EventA'' \<noteq> []
   \<and> GetEvents demo_codec (provider_on [ev ''A'' ''EventA'' 0 [10]] [] (scan_fails_at 0 1 conn_refused)) ''A'' 0
       = ([EventA []], None)
   \<and> GetEvents_loop demo_codec ''A'' [(ev ''A'' [] 0 [], None)] = ([], Some UnsupportedProtocolType)
   \<and> GetEvents demo_codec (provider_on [ev ''A'' ''EventA'' 0 [10]] [] (scan_fails_at 0 1 conn_refused)) ''A'' 0
       \<noteq> GetEvents_loop demo_codec ''A'' [(ev ''A'' [] 0 [], None)]"
  by (simp add: GetEvents_def demo_simps)

text \<open>
  C10, amended. \<open>GetEvents\<close> does not look at the error of \<open>Scan\<close> nor at the error of the
  cursor. When the scan of row \<open>i\<close> fails at column \<open>k\<close>, the call behaves as on a cursor
  without fault whose row \<open>i\<close> holds what the scan left in the variables: the columns
  before \<open>k\<close> as stored and zero values from \<open>k\<close> on, so always an empty payload, an empty
  type name when \<open>k = 0\<close> and the stored type name otherwise. When the cursor fails after
  \<open>n\<close> rows, all of which decode, the call returns normally and the callback has received
  the first \<open>n\<close> messages only.
\<close>

theorem GetEvents_ignores_scan_and_cursor_errors:
  assumes t: "events_tbl (db p) = Some t" and q: "query_fault (driver_faults (db p)) = None"
  shows "(next_fault (driver_faults (db p)) = None \<and> i < length (select_events t a start)
            \<and> scan_faults (driver_faults (db p)) = [(i, k, e)]
          \<longrightarrow> GetEvents c p a start
                = GetEvents_loop c a (map (\<lambda>r. (r, None))
                    ((select_events t a start)[i := after_failed_scan k (select_events t a start ! i)])))
       \<and> event_blob (after_failed_scan k r) = []
       \<and> event_type (after_failed_scan 0 r) = []
       \<and> (0 < k \<longrightarrow> event_type (after_failed_scan k r) = event_type r)
       \<and> (next_fault (driver_faults (db p)) = Some (n, e) \<and> n \<le> length (select_events t a start)
            \<and> scan_faults (driver_faults (db p)) = []
            \<and> map (\<lambda>r. extractData c a (event_type r) (event_blob r)) (select_events t a start) = map Inr msgs
          \<longrightarrow> GetEvents c p a start = (take n msgs, None))"
proof (intro conjI impI)
  let ?rows = "select_events t a start"
  let ?f = "driver_faults (db p)"
  {
    assume h: "next_fault ?f = None \<and> i < length ?rows
            \<and> scan_faults ?f = [(i, k, e)]"
    then have "GetEvents c p a start
        = GetEvents_loop c a (map (\<lambda>r. (r, None)) (take i ?rows) @ (?rows ! i, Some (k, e))
            # map (\<lambda>r. (r, None)) (drop (Suc i) ?rows))"
      using t q open_cursor_one_scan_fault[of ?f i k e ?rows]
      by (simp add: GetEvents_def Queryx_events_def)
    also have "\<dots> = GetEvents_loop c a (map (\<lambda>r. (r, None)) (take i ?rows)
            @ (after_failed_scan k (?rows ! i), None) # map (\<lambda>r. (r, None)) (drop (Suc i) ?rows))"
      by (rule GetEvents_loop_scan_error_dropped)
    also have "map (\<lambda>r. (r, None)) (take i ?rows)
            @ (after_failed_scan k (?rows ! i), None) # map (\<lambda>r. (r, None)) (drop (Suc i) ?rows)
          = map (\<lambda>r. (r, None)) (?rows[i := after_failed_scan k (?rows ! i)])"
      using h by (simp add: upd_conv_take_nth_drop)
    finally show "GetEvents c p a start
        = GetEvents_loop c a (map (\<lambda>r. (r, None)) (?rows[i := after_failed_scan k (?rows ! i)]))" .
  }
  show "event_blob (after_failed_scan k r) = []" by (simp add: after_failed_scan_def)
  show "event_type (after_failed_scan 0 r) = []" by (simp add: after_failed_scan_def)
  show "event_type (after_failed_scan k r) = event_type r" if "0 < k"
    using that by (simp add: after_failed_scan_def)
  {
    assume h: "next_fault ?f = Some (n, e) \<and> n \<le> length ?rows
            \<and> scan_faults ?f = []
            \<and> map (\<lambda>r. extractData c a (event_type r) (event_blob r)) ?rows = map Inr msgs"
    then have "GetEvents c p a start = GetEvents_loop c a (map (\<lambda>r. (r, None)) (take n ?rows))"
      using t q open_cursor_broken[of ?f n e ?rows]
      by (simp add: GetEvents_def Queryx_events_def)
    moreover from h have "map (\<lambda>r. extractData c a (event_type r) (event_blob r)) (take n ?rows)
        = map Inr (take n msgs)"
      by (simp add: take_map[symmetric])
    ultimately show "GetEvents c p a start = (take n msgs, None)"
      using GetEvents_loop_all_decode[of c a "take n ?rows" "take n msgs"] by simp
  }
qed

theorem GetEvents_ignores_scan_and_cursor_errors_witness:
  "GetEvents demo_codec (provider_on demo_events [] (scan_fails_at 1 0 conn_refused)) ''A'' 2
     = ([EventB [2]], Some UnsupportedProtocolType)
   \<and> GetEvents demo_codec (provider_on demo_events [] (scan_fails_at 1 2 conn_refused)) ''A'' 2
     = ([EventB [2], EventA [], EventB [7]], None)
   \<and> GetEvents demo_codec (provider_on demo_events [] (cursor_breaks_after 2 conn_refused)) ''A'' 2
     = ([EventB [2], EventA [5]], None)"
proof (intro conjI)
  let ?rows = "[ev ''A'' ''EventB'' 2 [2], ev ''A'' ''EventA'' 5 [5], ev ''A'' ''EventB'' 7 [7]]"
  have sel: "select_events demo_events ''A'' 2 = ?rows" by (simp add: demo_simps)
  let ?p = "provider_on demo_events [] (scan_fails_at 1 0 conn_refused)"
  have t: "events_tbl (db ?p) = Some demo_events" and q: "query_fault (driver_faults (db ?p)) = None"
    by (simp_all add: provider_on_def NewDb_def scan_fails_at_def no_faults_def)
  have h: "next_fault (driver_faults (db ?p)) = None \<and> 1 < length (select_events demo_events ''A'' 2)
            \<and> scan_faults (driver_faults (db ?p)) = [(1, 0, conn_refused)]"
    by (simp add: sel) (simp add: provider_on_def NewDb_def scan_fails_at_def no_faults_def)
  from GetEvents_ignores_scan_and_cursor_errors[where c = demo_codec, OF t q, THEN conjunct1, THEN mp, OF h]
  have "GetEvents demo_codec ?p ''A'' 2
      = GetEvents_loop demo_codec ''A'' (map (\<lambda>r. (r, None)) (?rows[1 := after_failed_scan 0 (?rows ! 1)]))"
    by (simp only: sel)
  also have "\<dots> = ([EventB [2]], Some UnsupportedProtocolType)"
    by (simp add: demo_simps)
  finally show "GetEvents demo_codec ?p ''A'' 2 = ([EventB [2]], Some UnsupportedProtocolType)" .
next
  let ?rows = "[ev ''A'' ''EventB'' 2 [2], ev ''A'' ''EventA'' 5 [5], ev ''A'' ''EventB'' 7 [7]]"
  have sel: "select_events demo_events ''A'' 2 = ?rows" by (simp add: demo_simps)
  let ?p = "provider_on demo_events [] (scan_fails_at 1 2 conn_refused)"
  have t: "events_tbl (db ?p) = Some demo_events" and q: "query_fault (driver_faults (db ?p)) = None"
    by (simp_all add: provider_on_def NewDb_def scan_fails_at_def no_faults_def)
  have h: "next_fault (driver_faults (db ?p)) = None \<and> 1 < length (select_events demo_events ''A'' 2)
            \<and> scan_faults (driver_faults (db ?p)) = [(1, 2, conn_refused)]"
    by (simp add: sel) (simp add: provider_on_def NewDb_def scan_fails_at_def no_faults_def)
  from GetEvents_ignores_scan_and_cursor_errors[where c = demo_codec, OF t q, THEN conjunct1, THEN mp, OF h]
  have "GetEvents demo_codec ?p ''A'' 2
      = GetEvents_loop demo_codec ''A'' (map (\<lambda>r. (r, None)) (?rows[1 := after_failed_scan 2 (?rows ! 1)]))"
    by (simp only: sel)
  also have "\<dots> = ([EventB [2], EventA [], EventB [7]], None)"
    by (simp add: demo_simps)
  finally show "GetEvents demo_codec ?p ''A'' 2 = ([EventB [2], EventA [], EventB [7]], None)" .
next
  let ?rows = "[ev ''A'' ''EventB'' 2 [2], ev ''A'' ''EventA'' 5 [5], ev ''A'' ''EventB'' 7 [7]]"
  have sel: "select_events demo_events ''A'' 2 = ?rows" by (simp add: demo_simps)
  let ?p = "provider_on demo_events [] (cursor_breaks_after 2 conn_refused)"
  have t: "events_tbl (db ?p) = Some demo_events" and q: "query_fault (driver_faults (db ?p)) = None"
    by (simp_all add: provider_on_def NewDb_def cursor_breaks_after_def no_faults_def)
  have h: "next_fault (driver_faults (db ?p)) = Some (2, conn_refused)
            \<and> 2 \<le> length (select_events demo_events ''A'' 2)
            \<and> scan_faults (driver_faults (db ?p)) = []
            \<and> map (\<lambda>r. extractData demo_codec ''A'' (event_type r) (event_blob r)) (select_events demo_events ''A'' 2)
                = map Inr [EventB [2], EventA [5], EventB [7]]"
    by (simp add: sel) (simp add: demo_simps)
  from GetEvents_ignores_scan_and_cursor_errors[where c = demo_codec, OF t q, THEN conjunct2, THEN conjunct2,
      THEN conjunct2, THEN conjunct2, THEN mp, OF h]
  show "GetEvents demo_codec ?p ''A'' 2 = ([EventB [2], EventA [5]], None)" by simp
qed

section \<open>Construction\<close>

lemma create_tables_tables:
  "create_tables tables d =
     (case exec_fault (driver_faults d) CreateEvents of
        Some e \<Rightarrow> Inl (CreateTableFailed CreateEvents e)
      | None \<Rightarrow>
          (case exec_fault (driver_faults d) CreateSnapshots of
             Some e \<Rightarrow> Inl (CreateTableFailed CreateSnapshots e)
           | None \<Rightarrow> Inr (d\<lparr>events_tbl := Some (case events_tbl d of None \<Rightarrow> [] | Some t \<Rightarrow> t),
                            snapshots_tbl := Some (case snapshots_tbl d of None \<Rightarrow> [] | Some t \<Rightarrow> t)\<rparr>)))"
  by (simp add: tables_def Exec_def split: option.splits)

lemma pool_mysql:
  "maxOpen (SetMaxIdleConns 256 (NewDb d)) = 0 \<and> maxIdleCount (SetMaxIdleConns 256 (NewDb d)) = 256"
  by (simp add: SetMaxIdleConns_def NewDb_def Let_def)

lemma pool_sqlite3:
  "maxOpen (SetMaxOpenConns 1 (SetMaxIdleConns 256 (NewDb d))) = 1
   \<and> maxIdleCount (SetMaxOpenConns 1 (SetMaxIdleConns 256 (NewDb d))) = 1"
  by (simp add: SetMaxOpenConns_def SetMaxIdleConns_def NewDb_def Let_def maxIdleConnsLocked_def)

lemma pool_keeps_database:
  "events_tbl (SetMaxIdleConns n d) = events_tbl d \<and> snapshots_tbl (SetMaxIdleConns n d) = snapshots_tbl d
   \<and> driver_faults (SetMaxIdleConns n d) = driver_faults d
   \<and> events_tbl (SetMaxOpenConns n d) = events_tbl d \<and> snapshots_tbl (SetMaxOpenConns n d) = snapshots_tbl d
   \<and> driver_faults (SetMaxOpenConns n d) = driver_faults d"
  by (simp add: SetMaxOpenConns_def SetMaxIdleConns_def Let_def)

lemma NewSqlProvider_unfold:
  "NewSqlProvider w url n =
     (if Scheme url \<noteq> ''mysql'' \<and> Scheme url \<noteq> ''sqlite3'' then Inl (InvalidDbDriver (Scheme url))
      else case (if Scheme url = ''sqlite3'' then os_MkdirAll w (filepath_Dir w (Path url)) else None) of
             Some e \<Rightarrow> Inl e
           | None \<Rightarrow>
              (case sql_Open w (Scheme url) (TrimPrefix (url_String url) (Scheme url @ ''://'')) of
                 Inl e \<Rightarrow> Inl e
               | Inr d \<Rightarrow>
                  (case ping_fault (driver_faults d) of
                     Some e \<Rightarrow> Inl e
                   | None \<Rightarrow>
                      (case create_tables tables
                              (if Scheme url = ''sqlite3''
                               then SetMaxOpenConns 1 (SetMaxIdleConns 256 (NewDb d))
                               else SetMaxIdleConns 256 (NewDb d)) of
                         Inl e \<Rightarrow> Inl e
                       | Inr d3 \<Rightarrow> Inr \<lparr>snapshotInterval = n, db = d3\<rparr>))))"
  by (simp add: NewSqlProvider_def Let_def Ping_def NewDb_def split: option.splits sum.splits)

lemma NewSqlProvider_success:
  assumes "NewSqlProvider w url n = Inr p"
  shows "\<exists>d. reaches w url d \<and> ping_fault (driver_faults d) = None
           \<and> exec_fault (driver_faults d) CreateEvents = None
           \<and> exec_fault (driver_faults d) CreateSnapshots = None
           \<and> snapshotInterval p = n
           \<and> events_tbl (db p) = Some (case events_tbl d of None \<Rightarrow> [] | Some t \<Rightarrow> t)
           \<and> snapshots_tbl (db p) = Some (case snapshots_tbl d of None \<Rightarrow> [] | Some t \<Rightarrow> t)
           \<and> driver_faults (db p) = driver_faults d
           \<and> maxOpen (db p) = (if Scheme url = ''sqlite3'' then 1 else 0)
           \<and> maxIdleCount (db p) = (if Scheme url = ''sqlite3'' then 1 else 256)"
proof -
  from assms have sch: "Scheme url = ''mysql'' \<or> Scheme url = ''sqlite3''"
    by (auto simp: NewSqlProvider_unfold split: if_splits)
  from assms sch have mk: "Scheme url = ''sqlite3'' \<longrightarrow> os_MkdirAll w (filepath_Dir w (Path url)) = None"
    by (auto simp: NewSqlProvider_unfold split: if_splits option.splits)
  from assms sch mk obtain d where
    d: "sql_Open w (Scheme url) (TrimPrefix (url_String url) (Scheme url @ ''://'')) = Inr d"
    by (cases "sql_Open w (Scheme url) (TrimPrefix (url_String url) (Scheme url @ ''://''))")
       (auto simp: NewSqlProvider_unfold split: if_splits)
  from assms sch mk d have pg: "ping_fault (driver_faults d) = None"
    by (auto simp: NewSqlProvider_unfold split: if_splits option.splits)
  let ?h = "if Scheme url = ''sqlite3'' then SetMaxOpenConns 1 (SetMaxIdleConns 256 (NewDb d))
            else SetMaxIdleConns 256 (NewDb d)"
  from assms sch mk d pg have ct: "create_tables tables ?h = Inr (db p)" and si: "snapshotInterval p = n"
    by (auto simp: NewSqlProvider_unfold split: if_splits sum.splits)
  have hf: "driver_faults ?h = driver_faults d" and he: "events_tbl ?h = events_tbl d"
    and hs: "snapshots_tbl ?h = snapshots_tbl d"
    by (simp_all add: pool_keeps_database NewDb_def)
  from ct hf have e1: "exec_fault (driver_faults d) CreateEvents = None"
    and e2: "exec_fault (driver_faults d) CreateSnapshots = None"
    by (auto simp: create_tables_tables split: option.splits)
  with ct hf have dbp: "db p = ?h\<lparr>events_tbl := Some (case events_tbl ?h of None \<Rightarrow> [] | Some t \<Rightarrow> t),
                            snapshots_tbl := Some (case snapshots_tbl ?h of None \<Rightarrow> [] | Some t \<Rightarrow> t)\<rparr>"
    by (simp add: create_tables_tables)
  have r: "reaches w url d" using sch mk d by (auto simp: reaches_def dir_ready_def dsn_def)
  have "maxOpen (db p) = (if Scheme url = ''sqlite3'' then 1 else 0)"
    and "maxIdleCount (db p) = (if Scheme url = ''sqlite3'' then 1 else 256)"
    using pool_mysql[of d] pool_sqlite3[of d] by (simp_all add: dbp)
  moreover have "events_tbl (db p) = Some (case events_tbl d of None \<Rightarrow> [] | Some t \<Rightarrow> t)"
    and "snapshots_tbl (db p) = Some (case snapshots_tbl d of None \<Rightarrow> [] | Some t \<Rightarrow> t)"
    and "driver_faults (db p) = driver_faults d"
    using he hs hf by (simp_all add: dbp)
  ultimately show ?thesis using r pg e1 e2 si by blast
qed

lemma NewSqlProvider_keyed:
  assumes "NewSqlProvider w url n = Inr p" and "reaches w url d"
    and "case snapshots_tbl d of None \<Rightarrow> True | Some t \<Rightarrow> distinct (map s_actor_name t)"
  shows "snapshots_keyed (db p)"
proof -
  from NewSqlProvider_success[OF assms(1)] obtain d' where
    "reaches w url d'"
    and "snapshots_tbl (db p) = Some (case snapshots_tbl d' of None \<Rightarrow> [] | Some t \<Rightarrow> t)"
    by blast
  moreover from this(1) assms(2) have "d' = d" by (simp add: reaches_def)
  ultimately show ?thesis using assms(3) by (auto simp: snapshots_keyed_def split: option.splits)
qed

lemma NewSqlProvider_new_table_no_rows:
  assumes "NewSqlProvider w url n = Inr p" and "reaches w url d" and "snapshots_tbl d = None"
  shows "snapshot_rows (db p) a = []"
proof -
  from NewSqlProvider_success[OF assms(1)] obtain d' where
    "reaches w url d'"
    and "snapshots_tbl (db p) = Some (case snapshots_tbl d' of None \<Rightarrow> [] | Some t \<Rightarrow> t)"
    by blast
  moreover from this(1) assms(2) have "d' = d" by (simp add: reaches_def)
  ultimately show ?thesis using assms(3) by (simp add: snapshot_rows_def select_snapshots_def)
qed

lemma NewSqlProvider_error_any_interval:
  "NewSqlProvider w url n = Inl e \<Longrightarrow> NewSqlProvider w url k = Inl e"
  by (auto simp: NewSqlProvider_unfold split: if_splits option.splits sum.splits)

lemma apply_writes_interval:
  assumes "apply_writes c p ws = Inr p'"
  shows "snapshotInterval p' = snapshotInterval p"
  using assms
proof (induction ws arbitrary: p)
  case Nil
  then show ?case by simp
next
  case (Cons w ws)
  then obtain p1 where p1: "apply_write c p w = Inr p1" and rest: "apply_writes c p1 ws = Inr p'"
    by (auto split: sum.splits)
  from p1 have "snapshotInterval p1 = snapshotInterval p"
    by (cases w) (auto simp: PersistEvent_def PersistSnapshot_def Let_def split: sum.splits)
  with Cons.IH[OF rest] show ?case by simp
qed

lemma NewSqlProvider_all_or_nothing:
  "(Scheme url \<noteq> ''mysql'' \<and> Scheme url \<noteq> ''sqlite3''
      \<longrightarrow> NewSqlProvider w url n = Inl (InvalidDbDriver (Scheme url)))
   \<and> (Scheme url = ''sqlite3'' \<and> os_MkdirAll w (filepath_Dir w (Path url)) = Some e
      \<longrightarrow> NewSqlProvider w url n = Inl e)
   \<and> (dir_ready w url \<and> sql_Open w (Scheme url) (dsn url) = Inl e
      \<longrightarrow> NewSqlProvider w url n = Inl e)
   \<and> (reaches w url d \<and> ping_fault (driver_faults d) = Some e
      \<longrightarrow> NewSqlProvider w url n = Inl e)
   \<and> (reaches w url d \<and> ping_fault (driver_faults d) = None
        \<and> exec_fault (driver_faults d) CreateEvents = Some e
      \<longrightarrow> NewSqlProvider w url n = Inl (CreateTableFailed CreateEvents e))
   \<and> (reaches w url d \<and> ping_fault (driver_faults d) = None
        \<and> exec_fault (driver_faults d) CreateEvents = None
        \<and> exec_fault (driver_faults d) CreateSnapshots = Some e
      \<longrightarrow> NewSqlProvider w url n = Inl (CreateTableFailed CreateSnapshots e))
   \<and> (NewSqlProvider w url n = Inr p
      \<longrightarrow> (\<exists>d'. reaches w url d'
             \<and> events_tbl (db p) = Some (case events_tbl d' of None \<Rightarrow> [] | Some t \<Rightarrow> t)
             \<and> snapshots_tbl (db p) = Some (case snapshots_tbl d' of None \<Rightarrow> [] | Some t \<Rightarrow> t)))"
proof (intro conjI impI)
  show "NewSqlProvider w url n = Inl (InvalidDbDriver (Scheme url))"
    if "Scheme url \<noteq> ''mysql'' \<and> Scheme url \<noteq> ''sqlite3''"
    using that by (simp add: NewSqlProvider_unfold)
  show "NewSqlProvider w url n = Inl e"
    if "Scheme url = ''sqlite3'' \<and> os_MkdirAll w (filepath_Dir w (Path url)) = Some e"
    using that by (simp add: NewSqlProvider_unfold)
  show "NewSqlProvider w url n = Inl e"
    if "dir_ready w url \<and> sql_Open w (Scheme url) (dsn url) = Inl e"
    using that by (auto simp: NewSqlProvider_unfold dir_ready_def dsn_def)
  show "NewSqlProvider w url n = Inl e"
    if "reaches w url d \<and> ping_fault (driver_faults d) = Some e"
    using that by (auto simp: NewSqlProvider_unfold reaches_def dir_ready_def dsn_def)
  show "NewSqlProvider w url n = Inl (CreateTableFailed CreateEvents e)"
    if "reaches w url d \<and> ping_fault (driver_faults d) = None
        \<and> exec_fault (driver_faults d) CreateEvents = Some e"
    using that
    by (auto simp: NewSqlProvider_unfold reaches_def dir_ready_def dsn_def create_tables_tables
        pool_keeps_database NewDb_def)
  show "NewSqlProvider w url n = Inl (CreateTableFailed CreateSnapshots e)"
    if "reaches w url d \<and> ping_fault (driver_faults d) = None
        \<and> exec_fault (driver_faults d) CreateEvents = None
        \<and> exec_fault (driver_faults d) CreateSnapshots = Some e"
    using that
    by (auto simp: NewSqlProvider_unfold reaches_def dir_ready_def dsn_def create_tables_tables
        pool_keeps_database NewDb_def)
  show "\<exists>d'. reaches w url d'
             \<and> events_tbl (db p) = Some (case events_tbl d' of None \<Rightarrow> [] | Some t \<Rightarrow> t)
             \<and> snapshots_tbl (db p) = Some (case snapshots_tbl d' of None \<Rightarrow> [] | Some t \<Rightarrow> t)"
    if "NewSqlProvider w url n = Inr p"
    using NewSqlProvider_success[OF that] by blast
qed

lemma NewSqlProvider_all_or_nothing_examples:
  "NewSqlProvider (demo_sys [] [] (Some perm_denied) (Inr fresh_database)) sqlite_url 50 = Inl perm_denied
   \<and> NewSqlProvider (demo_sys [] [] None (Inl conn_refused)) mysql_url 50 = Inl conn_refused
   \<and> NewSqlProvider (demo_sys [] [] None
        (Inr (faulty_database (no_faults\<lparr>ping_fault := Some conn_refused\<rparr>)))) mysql_url 50 = Inl conn_refused
   \<and> NewSqlProvider (demo_sys [] [] None
        (Inr (faulty_database (exec_fails_on CreateSnapshots perm_denied)))) sqlite_url 50
       = Inl (CreateTableFailed CreateSnapshots perm_denied)
   \<and> (\<exists>p. NewSqlProvider (demo_sys [] [] None (Inr used_database)) sqlite_url 50 = Inr p
          \<and> events_tbl (db p) = Some [ev ''A'' ''EventA'' 0 [10]] \<and> snapshots_tbl (db p) = Some [])"
proof (intro conjI)
  show "NewSqlProvider (demo_sys [] [] (Some perm_denied) (Inr fresh_database)) sqlite_url 50 = Inl perm_denied"
    by (rule NewSqlProvider_all_or_nothing[THEN conjunct2, THEN conjunct1, THEN mp])
       (simp add: demo_sys_def sqlite_url_def)
next
  show "NewSqlProvider (demo_sys [] [] None (Inl conn_refused)) mysql_url 50 = Inl conn_refused"
    by (rule NewSqlProvider_all_or_nothing[THEN conjunct2, THEN conjunct2, THEN conjunct1, THEN mp])
       (simp add: demo_sys_def mysql_url_def dir_ready_def)
next
  let ?d = "faulty_database (no_faults\<lparr>ping_fault := Some conn_refused\<rparr>)"
  show "NewSqlProvider (demo_sys [] [] None (Inr ?d)) mysql_url 50 = Inl conn_refused"
    by (rule NewSqlProvider_all_or_nothing[where d = ?d, THEN conjunct2, THEN conjunct2, THEN conjunct2,
          THEN conjunct1, THEN mp])
       (simp add: demo_sys_def mysql_url_def dir_ready_def reaches_def faulty_database_def no_faults_def)
next
  let ?d = "faulty_database (exec_fails_on CreateSnapshots perm_denied)"
  show "NewSqlProvider (demo_sys [] [] None (Inr ?d)) sqlite_url 50
          = Inl (CreateTableFailed CreateSnapshots perm_denied)"
    by (rule NewSqlProvider_all_or_nothing[where d = ?d, THEN conjunct2, THEN conjunct2, THEN conjunct2,
          THEN conjunct2, THEN conjunct2, THEN conjunct1, THEN mp])
       (simp add: demo_sys_def sqlite_url_def dir_ready_def reaches_def faulty_database_def
          exec_fails_on_def no_faults_def)
next
  let ?w = "demo_sys [] [] None (Inr used_database)"
  have "\<exists>p. NewSqlProvider ?w sqlite_url 50 = Inr p"
    by (simp add: NewSqlProvider_unfold create_tables_tables pool_keeps_database demo_sys_def
        sqlite_url_def used_database_def no_faults_def NewDb_def)
  then obtain p where p: "NewSqlProvider ?w sqlite_url 50 = Inr p" by blast
  from NewSqlProvider_all_or_nothing[THEN conjunct2, THEN conjunct2, THEN conjunct2, THEN conjunct2,
      THEN conjunct2, THEN conjunct2, THEN mp, OF p]
  obtain d' where r: "reaches ?w sqlite_url d'"
    and e: "events_tbl (db p) = Some (case events_tbl d' of None \<Rightarrow> [] | Some t \<Rightarrow> t)"
    and s: "snapshots_tbl (db p) = Some (case snapshots_tbl d' of None \<Rightarrow> [] | Some t \<Rightarrow> t)" by blast
  from r have "d' = used_database" by (simp add: reaches_def demo_sys_def)
  with e s have "events_tbl (db p) = Some [ev ''A'' ''EventA'' 0 [10]] \<and> snapshots_tbl (db p) = Some []"
    by (simp add: used_database_def)
  with p show "\<exists>p. NewSqlProvider ?w sqlite_url 50 = Inr p
          \<and> events_tbl (db p) = Some [ev ''A'' ''EventA'' 0 [10]] \<and> snapshots_tbl (db p) = Some []"
    by blast
qed

lemma NewProviderFromEnv_shapes:
  "(\<exists>e. NewProviderFromEnv w = (None, Some e))
   \<or> (\<exists>e. NewProviderFromEnv w = (Some (Sql None), Some e))
   \<or> (\<exists>p. NewProviderFromEnv w = (Some (InMemory p), None))
   \<or> (\<exists>p. NewProviderFromEnv w = (Some (Sql (Some p)), None))"
  by (auto simp: NewProviderFromEnv_def Let_def split: sum.splits)

lemma NewProviderFromEnv_durable_failure:
  assumes "url_Parse w (setup_GetString w EnvDBURL) = Inr url" and "Scheme url \<noteq> ''inmem''"
    and "NewSqlProvider w url n = Inl e"
  shows "NewProviderFromEnv w = (Some (Sql None), Some e)"
  using assms NewSqlProvider_error_any_interval[of w url n e]
  by (simp add: NewProviderFromEnv_def Let_def)

text \<open>
  C5. With the database URL \<open>postgres://db/flow\<close>, \<open>NewProviderFromEnv\<close> returns the error
  \<open>Invalid db driver postgres\<close>, and beside it a provider interface that is not nil: it
  holds the nil \<open>*SqlProvider\<close> that \<open>NewSqlProvider\<close> returned, and \<open>GetSnapshotInterval\<close>
  called on it panics. The same happens when the ping of a \<open>mysql\<close> database fails. On
  the same inputs \<open>NewSqlProvider\<close> itself returns nil with the error, and for a URL that
  does not parse \<open>NewProviderFromEnv\<close> returns the nil interface.
\<close>

theorem NewProviderFromEnv_error_beside_boxed_nil:
  "NewProviderFromEnv (demo_sys ''postgres://db/flow'' ''50'' None (Inr fresh_database))
     = (Some (Sql None), Some (InvalidDbDriver ''postgres''))
   \<and> ProviderState_GetSnapshotInterval (Sql None) = Inl NilPointerDereference
   \<and> NewProviderFromEnv (demo_sys ''mysql://flow@db/flow'' ''50'' None
        (Inr (faulty_database (no_faults\<lparr>ping_fault := Some conn_refused\<rparr>))))
     = (Some (Sql None), Some conn_refused)
   \<and> NewSqlProvider (demo_sys ''postgres://db/flow'' ''50'' None (Inr fresh_database))
        \<lparr>Scheme = ''postgres'', Path = ''/flow'', url_String = ''postgres://db/flow''\<rparr> 50
     = Inl (InvalidDbDriver ''postgres'')
   \<and> NewProviderFromEnv (demo_sys ''not a url'' ''50'' None (Inr fresh_database))
     = (None, Some (InvalidDBURL ''not a url''))"
  by (simp add: ctor_simps)

text \<open>
  C7. Whatever the system, the URL and the interval: a provider constructed for scheme
  \<open>sqlite3\<close> has \<open>maxOpen = 1\<close>; one constructed for another scheme is a \<open>mysql\<close> provider
  with an idle pool of 256 connections and no limit on open ones.
\<close>

theorem sqlite3_pinned_to_one_connection:
  assumes "NewSqlProvider w url n = Inr p"
  shows "(Scheme url = ''sqlite3'' \<longrightarrow> maxOpen (db p) = 1)
       \<and> (Scheme url \<noteq> ''sqlite3'' \<longrightarrow>
            Scheme url = ''mysql'' \<and> maxOpen (db p) = 0 \<and> maxIdleCount (db p) = 256)"
proof -
  from NewSqlProvider_success[OF assms] obtain d where
    "reaches w url d" and "maxOpen (db p) = (if Scheme url = ''sqlite3'' then 1 else 0)"
    and "maxIdleCount (db p) = (if Scheme url = ''sqlite3'' then 1 else 256)" by blast
  then show ?thesis by (auto simp: reaches_def dir_ready_def)
qed

theorem sqlite3_pinned_to_one_connection_witness:
  "(\<exists>p. NewSqlProvider (demo_sys [] [] None (Inr fresh_database)) sqlite_url 50 = Inr p \<and> maxOpen (db p) = 1)
   \<and> (\<exists>p. NewSqlProvider (demo_sys [] [] None (Inr fresh_database)) mysql_url 50 = Inr p
          \<and> maxOpen (db p) = 0 \<and> maxIdleCount (db p) = 256)"
proof -
  let ?w = "demo_sys [] [] None (Inr fresh_database)"
  obtain p where p: "NewSqlProvider ?w sqlite_url 50 = Inr p" by (simp add: ctor_simps)
  obtain q where q: "NewSqlProvider ?w mysql_url 50 = Inr q" by (simp add: ctor_simps)
  have s: "Scheme sqlite_url = ''sqlite3''" and m: "Scheme mysql_url \<noteq> ''sqlite3''"
    by (simp_all add: ctor_simps)
  from sqlite3_pinned_to_one_connection[OF p] s have "maxOpen (db p) = 1" by blast
  moreover from sqlite3_pinned_to_one_connection[OF q] m
  have "maxOpen (db q) = 0 \<and> maxIdleCount (db q) = 256" by blast
  ultimately show ?thesis using p q by blast
qed

text \<open>
  C8. A provider that \<open>NewProviderFromEnv\<close> returns with a nil error has the interval 1000 when
  \<open>strconv.Atoi\<close> rejects the configured string, and the parsed number otherwise; and
  \<open>GetSnapshotInterval\<close> of a provider returns the interval given to its constructor,
  also after any writes.
\<close>

theorem snapshot_interval_default_and_readback:
  "(NewProviderFromEnv w = (Some ps, None) \<and> Atoi (setup_GetString w EnvSnapshotInterval) = Inl e
      \<longrightarrow> ProviderState_GetSnapshotInterval ps = Inr 1000)
   \<and> (NewProviderFromEnv w = (Some ps, None) \<and> Atoi (setup_GetString w EnvSnapshotInterval) = Inr k
      \<longrightarrow> ProviderState_GetSnapshotInterval ps = Inr k)
   \<and> (NewSqlProvider w url n = Inr p \<longrightarrow> GetSnapshotInterval p = n)
   \<and> (NewSqlProvider w url n = Inr p \<and> apply_writes c p ws = Inr p' \<longrightarrow> GetSnapshotInterval p' = n)
   \<and> ProviderState_GetSnapshotInterval (InMemory (NewInMemoryProvider n)) = Inr n"
proof (intro conjI impI)
  have sql: "GetSnapshotInterval q = j" if "NewSqlProvider w u j = Inr q" for u j q
    using NewSqlProvider_success[OF that] by (auto simp: GetSnapshotInterval_def)
  have env: "ProviderState_GetSnapshotInterval ps
               = Inr (case Atoi (setup_GetString w EnvSnapshotInterval) of Inl ok \<Rightarrow> 1000 | Inr j \<Rightarrow> j)"
    if "NewProviderFromEnv w = (Some ps, None)"
    using that sql
    by (auto simp: NewProviderFromEnv_def Let_def NewInMemoryProvider_def split: sum.splits if_splits)
  show "ProviderState_GetSnapshotInterval ps = Inr 1000"
    if "NewProviderFromEnv w = (Some ps, None) \<and> Atoi (setup_GetString w EnvSnapshotInterval) = Inl e"
    using that env by simp
  show "ProviderState_GetSnapshotInterval ps = Inr k"
    if "NewProviderFromEnv w = (Some ps, None) \<and> Atoi (setup_GetString w EnvSnapshotInterval) = Inr k"
    using that env by simp
  show "GetSnapshotInterval p = n" if "NewSqlProvider w url n = Inr p"
    using that by (rule sql)
  show "GetSnapshotInterval p' = n" if "NewSqlProvider w url n = Inr p \<and> apply_writes c p ws = Inr p'"
    using that sql[of url n p] apply_writes_interval[of c p ws p'] by (simp add: GetSnapshotInterval_def)
  show "ProviderState_GetSnapshotInterval (InMemory (NewInMemoryProvider n)) = Inr n"
    by (simp add: NewInMemoryProvider_def)
qed

theorem snapshot_interval_default_and_readback_witness:
  "Atoi ''every-1000'' = Inl ErrSyntax
   \<and> (\<exists>ps. NewProviderFromEnv (demo_sys ''sqlite3:///tmp/flow/data.db'' ''every-1000'' None (Inr fresh_database)) = (Some ps, None)
          \<and> ProviderState_GetSnapshotInterval ps = Inr 1000)
   \<and> (\<exists>ps. NewProviderFromEnv (demo_sys ''inmem:/'' '''' None (Inr fresh_database)) = (Some ps, None)
          \<and> ProviderState_GetSnapshotInterval ps = Inr 1000)
   \<and> (\<exists>ps. NewProviderFromEnv (demo_sys ''mysql://flow@db/flow'' ''250'' None (Inr fresh_database)) = (Some ps, None)
          \<and> ProviderState_GetSnapshotInterval ps = Inr 250)"
proof -
  let ?w = "demo_sys ''sqlite3:///tmp/flow/data.db'' ''every-1000'' None (Inr fresh_database)"
  let ?v = "demo_sys ''inmem:/'' '''' None (Inr fresh_database)"
  let ?u = "demo_sys ''mysql://flow@db/flow'' ''250'' None (Inr fresh_database)"
  have a: "Atoi ''every-1000'' = Inl ErrSyntax" by (simp add: ctor_simps)
  have aw: "Atoi (setup_GetString ?w EnvSnapshotInterval) = Inl ErrSyntax" by (simp add: ctor_simps)
  have av: "Atoi (setup_GetString ?v EnvSnapshotInterval) = Inl ErrSyntax" by (simp add: ctor_simps)
  have au: "Atoi (setup_GetString ?u EnvSnapshotInterval) = Inr 250" by (simp add: ctor_simps)
  obtain ps where ps: "NewProviderFromEnv ?w = (Some ps, None)" by (simp add: ctor_simps)
  obtain pv where pv: "NewProviderFromEnv ?v = (Some pv, None)" by (simp add: ctor_simps)
  obtain pu where pu: "NewProviderFromEnv ?u = (Some pu, None)" by (simp add: ctor_simps)
  from snapshot_interval_default_and_readback[where w = ?w and ps = ps and e = ErrSyntax] ps aw
  have "ProviderState_GetSnapshotInterval ps = Inr 1000" by blast
  moreover from snapshot_interval_default_and_readback[where w = ?v and ps = pv and e = ErrSyntax] pv av
  have "ProviderState_GetSnapshotInterval pv = Inr 1000" by blast
  moreover from snapshot_interval_default_and_readback[where w = ?u and ps = pu and k = 250] pu au
  have "ProviderState_GetSnapshotInterval pu = Inr 250" by blast
  ultimately show ?thesis using a ps pv pu by blast
qed

end
